theory Spec2Isabelle
  imports Main "HOL-Library.Char_ord" "HOL-Library.List_Lexorder"
begin

section \<open>Errors and loops\<close>

text \<open>
  The Python exceptions that the modelled functions of \<^verbatim>\<open>spinnaker.py\<close> can raise.
  \<open>SemverError\<close> is the \<^verbatim>\<open>ValueError\<close> of \<^verbatim>\<open>semver.compare\<close> on a string that
  is no semantic version, \<open>DateError\<close> the \<^verbatim>\<open>ValueError\<close> of
  \<^verbatim>\<open>dateutil.parser.parse\<close>, \<open>OSError\<close> the failure of a file access.
\<close>

datatype error =
  KeyError | IndexError | ValueError | SemverError | DateError | OSError
  | AttributeError | TypeError | UnicodeDecodeError

text \<open>A \<^verbatim>\<open>for\<close> loop over a list whose body can raise: the first error ends the loop.\<close>

fun foldM :: "('s \<Rightarrow> 'a \<Rightarrow> error + 's) \<Rightarrow> 's \<Rightarrow> 'a list \<Rightarrow> error + 's" where
  "foldM f s [] = Inr s"
| "foldM f s (x # xs) = (case f s x of Inl e \<Rightarrow> Inl e | Inr s' \<Rightarrow> foldM f s' xs)"

section \<open>The hierarchical bundle\<close>

text \<open>
  The tree that \<^verbatim>\<open>getWorkflowObjects\<close> builds and \<^verbatim>\<open>mergeDonors\<close> combines: donor-level
  fields and a \<^verbatim>\<open>specimen\<close> list, each specimen with a \<^verbatim>\<open>samples\<close> list, each sample
  with an \<^verbatim>\<open>analysis\<close> list, each analysis entry with its \<^verbatim>\<open>workflow_outputs\<close>.
  The records hold the keys that the code writes and reads. An analysis entry built by
  \<^verbatim>\<open>getWorkflowObjects\<close> has no \<^verbatim>\<open>timestamp\<close> key, and \<^verbatim>\<open>mergeDonors\<close> tests for the
  key, so the field is optional (\<open>a_timestamp\<close>; the donor-level key is \<open>timestamp\<close>).
\<close>

record file_info =
  file_type :: string
  file_path :: string
  file_size :: nat
  file_sha :: string

record analysis =
  workflow_name :: string
  workflow_version :: string
  analysis_type :: string
  workflow_outputs :: "file_info list"
  bundle_uuid :: string
  a_timestamp :: "string option"

record sample =
  submitter_sample_id :: string
  sample_uuid :: string
  analysis :: "analysis list"

record specimen =
  submitter_specimen_id :: string
  submitter_specimen_type :: string
  submitter_experimental_design :: string
  specimen_uuid :: string
  samples :: "sample list"

record donor =
  program :: string
  project :: string
  center_name :: string
  submitter_donor_id :: string
  donor_uuid :: string
  submitter_donor_primary_site :: string
  timestamp :: string
  schema_version :: string
  specimen :: "specimen list"

section \<open>Points in time\<close>

text \<open>
  A \<^verbatim>\<open>datetime\<close> object, as far as the merge reads it: a point on the time axis in
  microseconds, either naive (no time zone) or aware (with a UTC offset, the point
  being the UTC time). The difference of two naive or of two aware objects is a
  \<^verbatim>\<open>timedelta\<close>, and \<^verbatim>\<open>total_seconds()\<close> of it is negative exactly if the difference
  of the points is; the difference of a naive and an aware object raises
  \<^verbatim>\<open>TypeError\<close>.
\<close>

datatype datetime = Naive int | Aware int

fun datetime_sub :: "datetime \<Rightarrow> datetime \<Rightarrow> error + int" where
  "datetime_sub (Naive a) (Naive b) = Inr (a - b)"
| "datetime_sub (Aware a) (Aware b) = Inr (a - b)"
| "datetime_sub (Naive a) (Aware b) = Inl TypeError"
| "datetime_sub (Aware a) (Naive b) = Inl TypeError"

text \<open>
  The source reaches the parsing function as \<^verbatim>\<open>dateutil.parser.parse\<close>, an attribute
  lookup on the module \<^verbatim>\<open>dateutil\<close>. The lookup finds the submodule \<^verbatim>\<open>parser\<close> only if
  some module of the process has imported \<^verbatim>\<open>dateutil.parser\<close>: the package does not
  load its submodules when it is imported itself. Otherwise the lookup raises
  \<^verbatim>\<open>AttributeError\<close>. A value of the type \<open>parser\<close> is what the lookup finds:
  \<open>None\<close> if the attribute is not there, the function \<^verbatim>\<open>parse\<close> if it is, with
  its exceptions as errors.
\<close>

type_synonym parser = "(string \<Rightarrow> error + datetime) option"

text \<open>
  The only import of the package in \<^verbatim>\<open>spinnaker.py\<close> is \<^verbatim>\<open>import dateutil\<close> (line 25),
  and none of the other modules that it imports loads \<^verbatim>\<open>dateutil.parser\<close>. So in a
  run of the program, and wherever \<^verbatim>\<open>mergeDonors\<close> is called with no other import
  of the submodule, the attribute is not there.
\<close>

definition dateutil_parser :: parser where
  "dateutil_parser = None"

section \<open>mergeDonors\<close>

text \<open>
  \<^verbatim>\<open>mergeDonors\<close> works in place: it stores the first bundle of a donor itself in
  \<^verbatim>\<open>donorMapping\<close> and appends specimens, samples and analysis entries of later
  bundles to the lists of that object. The model works on values and returns the
  changed lists. The two agree as long as no object occurs twice in the input, which
  is so for bundles that were loaded from files or built by \<^verbatim>\<open>getWorkflowObjects\<close>:
  then an object that has been stored or appended is not read again as input.
  The bundles are taken to have the keys that \<^verbatim>\<open>mergeDonors\<close> reads (the fields of the
  records above).
\<close>

text \<open>
  The lookup loops of \<^verbatim>\<open>mergeDonors\<close> have the shape
  \<^verbatim>\<open>for saved in xs: ... if key == saved[k]: obj = saved\<close>:
  they run to the end of the list, so \<^verbatim>\<open>obj\<close> is the last element that matches, and
  the membership test that follows (\<^verbatim>\<open>key not in savedKeys\<close>) fails exactly when
  there was a match.
\<close>

definition find_last :: "('a \<Rightarrow> bool) \<Rightarrow> 'a list \<Rightarrow> 'a option" where
  "find_last P xs = fold (\<lambda>x r. if P x then Some x else r) xs None"

text \<open>
  The object found is then changed in place. With the list as a value, the change is
  written back at the position of the last match.
\<close>

fun replace_last :: "('a \<Rightarrow> bool) \<Rightarrow> 'a \<Rightarrow> 'a list \<Rightarrow> 'a list" where
  "replace_last P y [] = []"
| "replace_last P y (x # xs) =
     (if list_ex P xs then x # replace_last P y xs
      else if P x then y # xs else x # xs)"

text \<open>
  \<^verbatim>\<open>if "timestamp" in bundle: uuid_to_timestamp[donor_uuid].append(bundle["timestamp"])\<close>
\<close>

definition record_timestamp :: "analysis \<Rightarrow> string list \<Rightarrow> string list" where
  "record_timestamp bundle timestamp_list =
     (case a_timestamp bundle of
        None \<Rightarrow> timestamp_list
      | Some t \<Rightarrow> timestamp_list @ [t])"

text \<open>
  The body of \<^verbatim>\<open>for bundle in sample["analysis"]\<close>. The state is the list
  \<^verbatim>\<open>sampleObj["analysis"]\<close> and the donor's timestamp list. The two library functions
  are parameters: \<open>compare\<close> is \<^verbatim>\<open>semver.compare\<close> (\<open>None\<close> when it raises
  \<^verbatim>\<open>ValueError\<close>), \<open>parse\<close> is what the lookup of \<^verbatim>\<open>dateutil.parser\<close> finds. The
  lookup comes first in \<^verbatim>\<open>dateutil.parser.parse(analysisObj["timestamp"])\<close>, then
  the saved timestamp is parsed, then the incoming one, then the two are subtracted.
  The source calls \<^verbatim>\<open>semver.compare\<close> twice on the same two
  strings, in two consecutive \<^verbatim>\<open>if\<close> statements testing for \<open>-1\<close> and for \<open>0\<close>;
  at most one of them fires. \<^verbatim>\<open>list.remove\<close> removes the first element equal to its
  argument, as \<open>remove1\<close> does.
\<close>

definition merge_analysis ::
  "(string \<Rightarrow> string \<Rightarrow> int option) \<Rightarrow> parser \<Rightarrow>
   analysis list \<times> string list \<Rightarrow> analysis \<Rightarrow> error + (analysis list \<times> string list)" where
  "merge_analysis compare parse st bundle =
     (case st of (saved, timestamp_list) \<Rightarrow>
        (case find_last (\<lambda>s. analysis_type s = analysis_type bundle) saved of
           None \<Rightarrow> Inr (saved @ [bundle], record_timestamp bundle timestamp_list)
         | Some analysisObj \<Rightarrow>
             (case compare (workflow_version analysisObj) (workflow_version bundle) of
                None \<Rightarrow> Inl SemverError
              | Some c \<Rightarrow>
                  if c = - 1 then
                    Inr (remove1 analysisObj saved @ [bundle],
                         record_timestamp bundle timestamp_list)
                  else if c = 0 then
                    (case (a_timestamp bundle, a_timestamp analysisObj) of
                       (Some new_ts, Some saved_ts) \<Rightarrow>
                         (case parse of
                            None \<Rightarrow> Inl AttributeError
                          | Some parse_fn \<Rightarrow>
                              (case parse_fn saved_ts of
                                 Inl e \<Rightarrow> Inl e
                               | Inr saved_timestamp \<Rightarrow>
                                   (case parse_fn new_ts of
                                      Inl e \<Rightarrow> Inl e
                                    | Inr new_timestamp \<Rightarrow>
                                        (case datetime_sub saved_timestamp new_timestamp of
                                           Inl e \<Rightarrow> Inl e
                                         | Inr timestamp_diff \<Rightarrow>
                                             if timestamp_diff < 0 then
                                               Inr (remove1 analysisObj saved @ [bundle],
                                                    record_timestamp bundle timestamp_list)
                                             else Inr (saved, timestamp_list)))))
                     | _ \<Rightarrow> Inr (saved, timestamp_list))
                  else Inr (saved, timestamp_list))))"

text \<open>
  The body of \<^verbatim>\<open>for sample in specimen["samples"]\<close>: the state is
  \<^verbatim>\<open>specObj["samples"]\<close> and the timestamp list.
\<close>

definition merge_sample ::
  "(string \<Rightarrow> string \<Rightarrow> int option) \<Rightarrow> parser \<Rightarrow>
   sample list \<times> string list \<Rightarrow> sample \<Rightarrow> error + (sample list \<times> string list)" where
  "merge_sample compare parse st sample =
     (case st of (saved, timestamp_list) \<Rightarrow>
        (case find_last (\<lambda>s. sample_uuid s = sample_uuid sample) saved of
           None \<Rightarrow> Inr (saved @ [sample], timestamp_list)
         | Some sampleObj \<Rightarrow>
             (case foldM (merge_analysis compare parse)
                     (analysis sampleObj, timestamp_list) (analysis sample) of
                Inl e \<Rightarrow> Inl e
              | Inr (as, timestamp_list') \<Rightarrow>
                  Inr (replace_last (\<lambda>s. sample_uuid s = sample_uuid sample)
                         (sampleObj\<lparr>analysis := as\<rparr>) saved,
                       timestamp_list'))))"

text \<open>
  The body of \<^verbatim>\<open>for specimen in metaObj["specimen"]\<close>: the state is
  \<^verbatim>\<open>donorObj["specimen"]\<close> and the timestamp list.
\<close>

definition merge_specimen ::
  "(string \<Rightarrow> string \<Rightarrow> int option) \<Rightarrow> parser \<Rightarrow>
   specimen list \<times> string list \<Rightarrow> specimen \<Rightarrow> error + (specimen list \<times> string list)" where
  "merge_specimen compare parse st specimen' =
     (case st of (saved, timestamp_list) \<Rightarrow>
        (case find_last (\<lambda>s. specimen_uuid s = specimen_uuid specimen') saved of
           None \<Rightarrow> Inr (saved @ [specimen'], timestamp_list)
         | Some specObj \<Rightarrow>
             (case foldM (merge_sample compare parse)
                     (samples specObj, timestamp_list) (samples specimen') of
                Inl e \<Rightarrow> Inl e
              | Inr (ss, timestamp_list') \<Rightarrow>
                  Inr (replace_last (\<lambda>s. specimen_uuid s = specimen_uuid specimen')
                         (specObj\<lparr>samples := ss\<rparr>) saved,
                       timestamp_list'))))"

text \<open>
  The two dictionaries of \<^verbatim>\<open>mergeDonors\<close>. \<open>uuid_keys\<close> lists the keys of
  \<^verbatim>\<open>uuid_to_timestamp\<close> in the order of insertion, for the final loop over them.
\<close>

record merge_state =
  donorMapping :: "string \<rightharpoonup> donor"
  uuid_to_timestamp :: "string \<rightharpoonup> string list"
  uuid_keys :: "string list"

definition empty_state :: merge_state where
  "empty_state = \<lparr>donorMapping = Map.empty, uuid_to_timestamp = Map.empty, uuid_keys = []\<rparr>"

text \<open>The body of \<^verbatim>\<open>for metaObj in metadataObjs\<close>.\<close>

definition merge_bundle ::
  "(string \<Rightarrow> string \<Rightarrow> int option) \<Rightarrow> parser \<Rightarrow>
   merge_state \<Rightarrow> donor \<Rightarrow> error + merge_state" where
  "merge_bundle compare parse st metaObj =
     (case donorMapping st (donor_uuid metaObj) of
        None \<Rightarrow>
          Inr \<lparr>donorMapping = (donorMapping st)(donor_uuid metaObj \<mapsto> metaObj),
               uuid_to_timestamp =
                 (uuid_to_timestamp st)(donor_uuid metaObj \<mapsto> [timestamp metaObj]),
               uuid_keys = uuid_keys st @ [donor_uuid metaObj]\<rparr>
      | Some donorObj \<Rightarrow>
          (case uuid_to_timestamp st (donor_uuid metaObj) of
             None \<Rightarrow> Inl KeyError
           | Some timestamp_list \<Rightarrow>
               (case foldM (merge_specimen compare parse)
                       (specimen donorObj, timestamp_list) (specimen metaObj) of
                  Inl e \<Rightarrow> Inl e
                | Inr (sp, timestamp_list') \<Rightarrow>
                    Inr (st\<lparr>donorMapping :=
                              (donorMapping st)(donor_uuid metaObj \<mapsto> donorObj\<lparr>specimen := sp\<rparr>),
                            uuid_to_timestamp :=
                              (uuid_to_timestamp st)(donor_uuid metaObj \<mapsto> timestamp_list')\<rparr>))))"

text \<open>
  \<^verbatim>\<open>max(timestamp_list)\<close>: the timestamps are strings, and Python orders strings
  lexicographically by character code, as the order on \<open>string\<close> does here.
  \<^verbatim>\<open>max\<close> of an empty list raises \<^verbatim>\<open>ValueError\<close>.
\<close>

fun py_max :: "string list \<Rightarrow> error + string" where
  "py_max [] = Inl ValueError"
| "py_max (x # xs) = Inr (fold max xs x)"

text \<open>
  The final loop: \<^verbatim>\<open>for i in uuid_to_timestamp: donorMapping[i]["timestamp"] = max(...)\<close>.
\<close>

fun set_timestamps ::
  "(string \<rightharpoonup> string list) \<Rightarrow> (string \<rightharpoonup> donor) \<Rightarrow> string list \<Rightarrow>
   error + (string \<rightharpoonup> donor)" where
  "set_timestamps tsm dm [] = Inr dm"
| "set_timestamps tsm dm (i # keys) =
     (case tsm i of
        None \<Rightarrow> Inl KeyError
      | Some timestamp_list \<Rightarrow>
          (case py_max timestamp_list of
             Inl e \<Rightarrow> Inl e
           | Inr t \<Rightarrow>
               (case dm i of
                  None \<Rightarrow> Inl KeyError
                | Some donorObj \<Rightarrow>
                    set_timestamps tsm (dm(i \<mapsto> donorObj\<lparr>timestamp := t\<rparr>)) keys)))"

definition merge_all ::
  "(string \<Rightarrow> string \<Rightarrow> int option) \<Rightarrow> parser \<Rightarrow>
   donor list \<Rightarrow> error + merge_state" where
  "merge_all compare parse metadataObjs =
     foldM (merge_bundle compare parse) empty_state metadataObjs"

definition mergeDonors ::
  "(string \<Rightarrow> string \<Rightarrow> int option) \<Rightarrow> parser \<Rightarrow>
   donor list \<Rightarrow> error + (string \<rightharpoonup> donor)" where
  "mergeDonors compare parse metadataObjs =
     (case merge_all compare parse metadataObjs of
        Inl e \<Rightarrow> Inl e
      | Inr st \<Rightarrow> set_timestamps (uuid_to_timestamp st) (donorMapping st) (uuid_keys st))"

text \<open>
  The donor \<open>donorObj\<close> after the analysis list of \<open>sampleObj\<close>, a sample of its
  specimen \<open>specObj\<close>, has become \<open>as\<close>: what the in-place changes of the analysis
  loop leave in \<^verbatim>\<open>donorMapping\<close>.
\<close>

definition put_analysis :: "donor \<Rightarrow> specimen \<Rightarrow> sample \<Rightarrow> analysis list \<Rightarrow> donor" where
  "put_analysis donorObj specObj sampleObj as =
     donorObj\<lparr>specimen :=
       replace_last (\<lambda>s. specimen_uuid s = specimen_uuid specObj)
         (specObj\<lparr>samples :=
            replace_last (\<lambda>s. sample_uuid s = sample_uuid sampleObj)
              (sampleObj\<lparr>analysis := as\<rparr>) (samples specObj)\<rparr>)
         (specimen donorObj)\<rparr>"

section \<open>Instances of the library functions\<close>

text \<open>
  The theorems below hold for every comparison function and every parser. Their
  instances at concrete bundles need concrete functions. \<open>semver_plain\<close> gives the
  result of \<^verbatim>\<open>semver.compare\<close> on two versions of the plain form
  \<^verbatim>\<open>MAJOR.MINOR.PATCH\<close> (decimal numbers without leading zeros): the numbers are
  compared in this order. On any other string it gives \<open>None\<close>; that is the library's
  answer for a string that is no version, and the instance is not used on versions with
  a pre-release or build part.
\<close>

definition is_digit :: "char \<Rightarrow> bool" where
  "is_digit c = (CHR ''0'' \<le> c \<and> c \<le> CHR ''9'')"

definition digits_value :: "string \<Rightarrow> nat" where
  "digits_value s = foldl (\<lambda>n c. 10 * n + (of_char c - 48)) 0 s"

definition decimal :: "string \<Rightarrow> nat option" where
  "decimal s =
     (if s \<noteq> [] \<and> list_all is_digit s \<and> (length s = 1 \<or> hd s \<noteq> CHR ''0'')
      then Some (digits_value s) else None)"

fun split_on :: "char \<Rightarrow> string \<Rightarrow> string list" where
  "split_on c [] = [[]]"
| "split_on c (x # xs) =
     (if x = c then [] # split_on c xs
      else (case split_on c xs of [] \<Rightarrow> [[x]] | y # ys \<Rightarrow> (x # y) # ys))"

definition semver_core :: "string \<Rightarrow> (nat \<times> nat \<times> nat) option" where
  "semver_core s =
     (case map decimal (split_on CHR ''.'' s) of
        [Some major, Some minor, Some patch] \<Rightarrow> Some (major, minor, patch)
      | _ \<Rightarrow> None)"

definition cmp_nat :: "nat \<Rightarrow> nat \<Rightarrow> int" where
  "cmp_nat a b = (if a < b then - 1 else if a = b then 0 else 1)"

definition semver_plain :: "string \<Rightarrow> string \<Rightarrow> int option" where
  "semver_plain ver1 ver2 =
     (case (semver_core ver1, semver_core ver2) of
        (Some (a1, b1, c1), Some (a2, b2, c2)) \<Rightarrow>
          Some (if cmp_nat a1 a2 \<noteq> 0 then cmp_nat a1 a2
                else if cmp_nat b1 b2 \<noteq> 0 then cmp_nat b1 b2
                else cmp_nat c1 c2)
      | _ \<Rightarrow> None)"

text \<open>
  \<open>iso_parse\<close> reads a timestamp of the form \<^verbatim>\<open>YYYY-MM-DDTHH:MM:SS\<close>, the form that
  \<^verbatim>\<open>datetime.isoformat\<close> writes for a naive time of a whole second, as the naive
  point that many microseconds after 1970-01-01, and raises on any other string.
\<close>

definition is_leap :: "nat \<Rightarrow> bool" where
  "is_leap y = (y mod 4 = 0 \<and> (y mod 100 \<noteq> 0 \<or> y mod 400 = 0))"

definition days_in_month :: "nat \<Rightarrow> nat \<Rightarrow> nat" where
  "days_in_month y m =
     (if m = 2 then (if is_leap y then 29 else 28)
      else if m = 4 \<or> m = 6 \<or> m = 9 \<or> m = 11 then 30 else 31)"

definition days_from_civil :: "nat \<Rightarrow> nat \<Rightarrow> nat \<Rightarrow> int" where
  "days_from_civil y m d =
     (let y' = (if m \<le> 2 then int y - 1 else int y);
          era = y' div 400;
          yoe = y' - era * 400;
          mp = (if m > 2 then int m - 3 else int m + 9);
          doy = (153 * mp + 2) div 5 + int d - 1;
          doe = yoe * 365 + yoe div 4 - yoe div 100 + doy
      in era * 146097 + doe - 719468)"

definition fixed_digits :: "string \<Rightarrow> nat option" where
  "fixed_digits s = (if s \<noteq> [] \<and> list_all is_digit s then Some (digits_value s) else None)"

definition iso_parse :: "string \<Rightarrow> error + datetime" where
  "iso_parse s =
     (if length s = 19 \<and> s ! 4 = CHR ''-'' \<and> s ! 7 = CHR ''-'' \<and> s ! 10 = CHR ''T''
         \<and> s ! 13 = CHR '':'' \<and> s ! 16 = CHR '':''
      then
        (case map fixed_digits
                [take 4 s, take 2 (drop 5 s), take 2 (drop 8 s),
                 take 2 (drop 11 s), take 2 (drop 14 s), take 2 (drop 17 s)] of
           [Some y, Some m, Some d, Some h, Some mi, Some sec] \<Rightarrow>
             if 1 \<le> y \<and> 1 \<le> m \<and> m \<le> 12 \<and> 1 \<le> d \<and> d \<le> days_in_month y m
                \<and> h < 24 \<and> mi < 60 \<and> sec < 60
             then Inr (Naive ((days_from_civil y m d * 86400 + int (h * 3600 + mi * 60 + sec))
                              * 1000000))
             else Inl DateError
         | _ \<Rightarrow> Inl DateError)
      else Inl DateError)"

text \<open>
  A bundle of the shape that \<^verbatim>\<open>getWorkflowObjects\<close> builds, with one specimen, one
  sample and one analysis entry, for the instances below.
\<close>

definition path_bundle ::
  "string \<Rightarrow> string \<Rightarrow> string \<Rightarrow> string \<Rightarrow> analysis \<Rightarrow> donor" where
  "path_bundle d ts sp sa a =
     \<lparr>program = ''TEST'', project = ''P'', center_name = ''UCSC'',
      submitter_donor_id = d, donor_uuid = d, submitter_donor_primary_site = [],
      timestamp = ts, schema_version = ''0.0.3'',
      specimen =
        [\<lparr>submitter_specimen_id = sp, submitter_specimen_type = ''Normal'',
          submitter_experimental_design = ''RNA-Seq'', specimen_uuid = sp,
          samples = [\<lparr>submitter_sample_id = sa, sample_uuid = sa, analysis = [a]\<rparr>]\<rparr>]\<rparr>"

definition entry :: "string \<Rightarrow> string \<Rightarrow> string \<Rightarrow> string option \<Rightarrow> analysis" where
  "entry name version type ts =
     \<lparr>workflow_name = name, workflow_version = version, analysis_type = type,
      workflow_outputs = [], bundle_uuid = name @ version, a_timestamp = ts\<rparr>"

section \<open>Reading a merged mapping\<close>

text \<open>All analysis entries of a donor, in the order of the tree.\<close>

definition all_analysis :: "donor \<Rightarrow> analysis list" where
  "all_analysis donorObj = concat (map analysis (concat (map samples (specimen donorObj))))"

text \<open>The donor stored under a key of the result, if the merge returned.\<close>

definition lookup_donor :: "error + (string \<rightharpoonup> donor) \<Rightarrow> string \<Rightarrow> donor option" where
  "lookup_donor r d = (case r of Inl e \<Rightarrow> None | Inr m \<Rightarrow> m d)"

text \<open>
  Two bundles for the same donor, specimen and sample, whose analysis entries have the
  same \<^verbatim>\<open>analysis_type\<close> and the versions \<^verbatim>\<open>1.0.0\<close> and \<^verbatim>\<open>2.0.0\<close>.
\<close>

definition bundle_v1 :: donor where
  "bundle_v1 = path_bundle ''d1'' ''2017-01-01T00:00:00'' ''sp1'' ''sa1''
                 (entry ''rnaseq'' ''1.0.0'' ''alignment'' None)"

definition bundle_v2 :: donor where
  "bundle_v2 = path_bundle ''d1'' ''2017-02-01T00:00:00'' ''sp1'' ''sa1''
                 (entry ''rnaseq'' ''2.0.0'' ''alignment'' None)"

text \<open>
  Two bundles for the same donor, specimen and sample, whose analysis entries have the
  same \<^verbatim>\<open>analysis_type\<close>, the same version and the timestamps of 1 March and
  1 April 2017.
\<close>

definition bundle_t1 :: donor where
  "bundle_t1 = path_bundle ''d1'' ''2017-03-01T00:00:00'' ''sp1'' ''sa1''
                 (entry ''rnaseq'' ''1.0.0'' ''alignment'' (Some ''2017-03-01T00:00:00''))"

definition bundle_t2 :: donor where
  "bundle_t2 = path_bundle ''d1'' ''2017-04-01T00:00:00'' ''sp1'' ''sa1''
                 (entry ''rnaseq'' ''1.0.0'' ''alignment'' (Some ''2017-04-01T00:00:00''))"

text \<open>
  A bundle for the same donor, specimen, sample and \<^verbatim>\<open>analysis_type\<close> whose
  \<^verbatim>\<open>workflow_version\<close> is no semantic version.
\<close>

definition bundle_bad :: donor where
  "bundle_bad = path_bundle ''d1'' ''2017-03-01T00:00:00'' ''sp1'' ''sa1''
                  (entry ''rnaseq'' ''latest'' ''alignment'' None)"


section \<open>Properties of bundles and of the merge state\<close>

text \<open>
  A sample with at most one analysis entry for each \<^verbatim>\<open>analysis_type\<close>, a specimen
  with at most one such sample for each \<^verbatim>\<open>sample_uuid\<close>, a donor with at most one such
  specimen for each \<^verbatim>\<open>specimen_uuid\<close>. Every bundle that \<^verbatim>\<open>getWorkflowObjects\<close> builds
  is of this kind: it has one specimen, one sample and one analysis entry.
\<close>

definition wf_sample :: "sample \<Rightarrow> bool" where
  "wf_sample sa = distinct (map analysis_type (analysis sa))"

definition wf_specimen :: "specimen \<Rightarrow> bool" where
  "wf_specimen sp = (distinct (map sample_uuid (samples sp)) \<and> list_all wf_sample (samples sp))"

definition wf_donor :: "donor \<Rightarrow> bool" where
  "wf_donor donorObj =
     (distinct (map specimen_uuid (specimen donorObj)) \<and> list_all wf_specimen (specimen donorObj))"

text \<open>The first bundle of a donor in the input sequence.\<close>

definition first_bundle :: "string \<Rightarrow> donor list \<Rightarrow> donor option" where
  "first_bundle d metadataObjs = find (\<lambda>b. donor_uuid b = d) metadataObjs"

text \<open>
  What the loop over the bundles keeps true of its two dictionaries: they have the same
  keys, the donors of the bundles seen; a donor's entry is its first bundle, except for
  the \<^verbatim>\<open>specimen\<close> list; its timestamp list starts with the first bundle's timestamp.
\<close>

definition merge_inv :: "donor list \<Rightarrow> merge_state \<Rightarrow> bool" where
  "merge_inv metadataObjs st =
     (distinct (uuid_keys st) \<and> set (uuid_keys st) = donor_uuid ` set metadataObjs \<and>
      (\<forall>d. case first_bundle d metadataObjs of
              None \<Rightarrow> donorMapping st d = None \<and> uuid_to_timestamp st d = None
            | Some f \<Rightarrow>
                (\<exists>sp l. donorMapping st d = Some (f\<lparr>specimen := sp\<rparr>)
                       \<and> uuid_to_timestamp st d = Some (timestamp f # l))))"

text \<open>
  The state after the bundles of one set of donors and the state after the bundles of
  another, put together.
\<close>

definition join_states :: "merge_state \<Rightarrow> merge_state \<Rightarrow> merge_state" where
  "join_states s1 s2 =
     \<lparr>donorMapping = donorMapping s1 ++ donorMapping s2,
      uuid_to_timestamp = uuid_to_timestamp s1 ++ uuid_to_timestamp s2,
      uuid_keys = uuid_keys s1 @ uuid_keys s2\<rparr>"

text \<open>
  A donor whose first bundle is stamped 1 June 2017 and has an entry without a
  timestamp, and three later bundles of the same sample that bring entries of new
  analysis types with the timestamps of 1 January, 1 February and 1 March 2017.
\<close>

definition bundle_june :: donor where
  "bundle_june = path_bundle ''d1'' ''2017-06-01T00:00:00'' ''sp1'' ''sa1''
                   (entry ''rnaseq'' ''1.0.0'' ''alignment'' None)"

definition bundle_jan :: donor where
  "bundle_jan = path_bundle ''d1'' ''2017-01-01T00:00:00'' ''sp1'' ''sa1''
                  (entry ''varcall'' ''1.0.0'' ''variants'' (Some ''2017-01-01T00:00:00''))"

definition bundle_feb :: donor where
  "bundle_feb = path_bundle ''d1'' ''2017-02-01T00:00:00'' ''sp1'' ''sa1''
                  (entry ''fusion'' ''1.0.0'' ''fusions'' (Some ''2017-02-01T00:00:00''))"

definition bundle_mar :: donor where
  "bundle_mar = path_bundle ''d1'' ''2017-03-01T00:00:00'' ''sp1'' ''sa1''
                  (entry ''qc'' ''1.0.0'' ''qc_report'' (Some ''2017-03-01T00:00:00''))"

text \<open>
  A first bundle stamped 1 December 2016; a bundle whose entry of the type
  \<^verbatim>\<open>variants\<close> has the newer version \<^verbatim>\<open>2.0.0\<close> and the timestamp of 1 April 2017; one
  whose entry of that type has the older version \<^verbatim>\<open>0.9.0\<close> and the timestamp of
  1 May 2017; and one that brings a sample new to the specimen, with an entry stamped
  1 January 2019.
\<close>

definition bundle_dec :: donor where
  "bundle_dec = path_bundle ''d1'' ''2016-12-01T00:00:00'' ''sp1'' ''sa1''
                  (entry ''rnaseq'' ''1.0.0'' ''alignment'' None)"

definition bundle_apr :: donor where
  "bundle_apr = path_bundle ''d1'' ''2017-04-01T00:00:00'' ''sp1'' ''sa1''
                  (entry ''varcall'' ''2.0.0'' ''variants'' (Some ''2017-04-01T00:00:00''))"

definition bundle_may :: donor where
  "bundle_may = path_bundle ''d1'' ''2017-05-01T00:00:00'' ''sp1'' ''sa1''
                  (entry ''varcall'' ''0.9.0'' ''variants'' (Some ''2017-05-01T00:00:00''))"

definition bundle_2019 :: donor where
  "bundle_2019 = path_bundle ''d1'' ''2019-01-01T00:00:00'' ''sp1'' ''sa2''
                   (entry ''varcall'' ''1.0.0'' ''variants'' (Some ''2019-01-01T00:00:00''))"

definition rollup_bundles :: "donor list" where
  "rollup_bundles = [bundle_dec, bundle_jan, bundle_feb, bundle_apr, bundle_may]"

text \<open>
  A later bundle of donor \<^verbatim>\<open>d1\<close> with other donor-level fields than \<open>bundle_v2\<close>,
  and the same \<^verbatim>\<open>specimen\<close> list.
\<close>

definition bundle_v2_other_fields :: donor where
  "bundle_v2_other_fields =
     bundle_v2\<lparr>program := ''OTHER'', project := ''Q'', center_name := ''X'',
               submitter_donor_id := ''other'', submitter_donor_primary_site := ''lung'',
               timestamp := ''2018-01-01T00:00:00'', schema_version := ''9.9.9''\<rparr>"

text \<open>
  A bundle for the same donor, specimen, sample and \<^verbatim>\<open>analysis_type\<close> as \<open>bundle_v1\<close>,
  from another workflow, whose name and \<^verbatim>\<open>bundle_uuid\<close> differ.
\<close>

definition bundle_star :: donor where
  "bundle_star = path_bundle ''d1'' ''2017-02-01T00:00:00'' ''sp1'' ''sa1''
                   (entry ''star'' ''1.5.0'' ''alignment'' None)"

text \<open>
  A bundle of the same donor and specimen with a sample \<^verbatim>\<open>sa2\<close> that holds two entries
  of the type \<^verbatim>\<open>alignment\<close>, from two workflows.
\<close>

definition bundle_twice :: donor where
  "bundle_twice =
     \<lparr>program = ''TEST'', project = ''P'', center_name = ''UCSC'',
      submitter_donor_id = ''d1'', donor_uuid = ''d1'', submitter_donor_primary_site = [],
      timestamp = ''2017-02-01T00:00:00'', schema_version = ''0.0.3'',
      specimen =
        [\<lparr>submitter_specimen_id = ''sp1'', submitter_specimen_type = ''Normal'',
          submitter_experimental_design = ''RNA-Seq'', specimen_uuid = ''sp1'',
          samples =
            [\<lparr>submitter_sample_id = ''sa2'', sample_uuid = ''sa2'',
              analysis = [entry ''rnaseq'' ''1.0.0'' ''alignment'' None,
                          entry ''star'' ''1.5.0'' ''alignment'' None]\<rparr>]\<rparr>]\<rparr>"

text \<open>The analysis types of each sample of a donor, sample by sample.\<close>

definition sample_types :: "donor \<Rightarrow> (string \<times> string list) list" where
  "sample_types donorObj =
     map (\<lambda>sa. (sample_uuid sa, map analysis_type (analysis sa)))
       (concat (map samples (specimen donorObj)))"

section \<open>Identifiers\<close>

text \<open>
  The values of the cells of an input row. The program is Python 2: a cell of a
  tab-separated file is a byte string (\<^verbatim>\<open>str\<close>), a text cell of an Excel sheet read by
  \<^verbatim>\<open>openpyxl\<close> is a \<^verbatim>\<open>unicode\<close> object (a list of code points), an empty cell and a
  cell missing at the end of a line are \<^verbatim>\<open>None\<close>, and a cell of a sheet can hold
  another object (a number, a date, a truth value).
\<close>

datatype pyval = Str string | Unicode "nat list" | NoneVal | Other

text \<open>
  \<^verbatim>\<open>nameComponent.encode('ascii', 'ignore')\<close>. On a \<^verbatim>\<open>unicode\<close> object it drops the code
  points from 128 on and gives the rest as a byte string. On a byte string Python 2
  first decodes the bytes as ASCII, without \<^verbatim>\<open>'ignore'\<close>: that raises
  \<^verbatim>\<open>UnicodeDecodeError\<close> if a byte is 128 or more, and gives the same bytes back
  otherwise. \<^verbatim>\<open>None\<close> and the other objects have no method \<^verbatim>\<open>encode\<close>.
\<close>

definition ascii :: "string \<Rightarrow> bool" where
  "ascii s = list_all (\<lambda>c. (of_char c :: nat) < 128) s"

fun encode_ascii_ignore :: "pyval \<Rightarrow> error + string" where
  "encode_ascii_ignore (Str s) = (if ascii s then Inr s else Inl UnicodeDecodeError)"
| "encode_ascii_ignore (Unicode cs) = Inr (map char_of (filter (\<lambda>n. n < 128) cs))"
| "encode_ascii_ignore NoneVal = Inl AttributeError"
| "encode_ascii_ignore Other = Inl AttributeError"

text \<open>\<^verbatim>\<open>lower\<close> of an ASCII byte string maps \<^verbatim>\<open>A\<close> to \<^verbatim>\<open>Z\<close> to \<^verbatim>\<open>a\<close> to \<^verbatim>\<open>z\<close>.\<close>

definition lower_char :: "char \<Rightarrow> char" where
  "lower_char c =
     (if CHR ''A'' \<le> c \<and> c \<le> CHR ''Z'' then char_of ((of_char c :: nat) + 32) else c)"

definition lower :: "string \<Rightarrow> string" where
  "lower s = map lower_char s"

definition NAMESPACE_URL :: string where
  "NAMESPACE_URL = ''6ba7b811-9dad-11d1-80b4-00c04fd430c8''"

text \<open>
  \<^verbatim>\<open>generateUuid5\<close>: the loop encodes the components one after the other and stops at
  the first that raises; then the byte strings are joined and put in lower case. The
  hash \<^verbatim>\<open>str(uuid.uuid5(namespace, name))\<close> of the standard library is the parameter
  \<open>uuid5\<close>.
\<close>

definition append_encoded :: "string list \<Rightarrow> pyval \<Rightarrow> error + string list" where
  "append_encoded strings nameComponent =
     (case encode_ascii_ignore nameComponent of
        Inl e \<Rightarrow> Inl e
      | Inr s \<Rightarrow> Inr (strings @ [s]))"

definition generateUuid5 ::
  "(string \<Rightarrow> string \<Rightarrow> string) \<Rightarrow> string \<Rightarrow> pyval list \<Rightarrow> error + string" where
  "generateUuid5 uuid5 namespace nameComponents =
     (case foldM append_encoded [] nameComponents of
        Inl e \<Rightarrow> Inl e
      | Inr strings \<Rightarrow> Inr (uuid5 namespace (lower (concat strings))))"

text \<open>
  The words of the specification: each component is normalised to its ASCII
  characters in lower case, and the normalised components are concatenated in the
  given order with no separator. A component is a text: a \<^verbatim>\<open>unicode\<close> object, or a
  byte string, which is taken to be ASCII.
\<close>

fun ascii_part :: "pyval \<Rightarrow> string" where
  "ascii_part (Str s) = filter (\<lambda>c. (of_char c :: nat) < 128) s"
| "ascii_part (Unicode cs) = map char_of (filter (\<lambda>n. n < 128) cs)"
| "ascii_part NoneVal = []"
| "ascii_part Other = []"

definition normalized_name :: "pyval list \<Rightarrow> string" where
  "normalized_name nameComponents = concat (map (\<lambda>c. lower (ascii_part c)) nameComponents)"

fun is_text :: "pyval \<Rightarrow> bool" where
  "is_text (Str s) = ascii s"
| "is_text (Unicode cs) = True"
| "is_text NoneVal = False"
| "is_text Other = False"

text \<open>
  An input row, as \<^verbatim>\<open>getDataDictFromXls\<close> and \<^verbatim>\<open>processFieldNames\<close> return it: a
  dictionary from column names to cell values. So \<open>row k = None\<close> says that the row
  has no key \<open>k\<close> (the input has no such column), and \<open>row k = Some NoneVal\<close> that the
  value of \<open>k\<close> is \<^verbatim>\<open>None\<close>.
\<close>

type_synonym row = "string \<rightharpoonup> pyval"

text \<open>The calls of \<^verbatim>\<open>logging.error\<close> in \<^verbatim>\<open>setUuids\<close> and \<^verbatim>\<open>getDataObj\<close>.\<close>

datatype log_entry = NotFound string | SchemaError | ValidationFailed

text \<open>
  The inner loop of \<^verbatim>\<open>setUuids\<close>, over the fields of one identifier:
  \<^verbatim>\<open>dataObj[field]\<close> raises \<^verbatim>\<open>KeyError\<close> if the row has no such key; a value
  \<^verbatim>\<open>None\<close> is logged and ends \<^verbatim>\<open>setUuids\<close>; any other value joins the key list.
\<close>

datatype key_list = Missing string | Keys "pyval list"

fun key_values :: "row \<Rightarrow> string list \<Rightarrow> error + key_list" where
  "key_values dataObj [] = Inr (Keys [])"
| "key_values dataObj (field # fieldNames) =
     (case dataObj field of
        None \<Rightarrow> Inl KeyError
      | Some v \<Rightarrow>
          if v = NoneVal then Inr (Missing field)
          else (case key_values dataObj fieldNames of
                  Inl e \<Rightarrow> Inl e
                | Inr (Missing f) \<Rightarrow> Inr (Missing f)
                | Inr (Keys keyList) \<Rightarrow> Inr (Keys (v # keyList))))"

text \<open>
  \<^verbatim>\<open>keyFieldsMapping\<close>: the fields of the donor, specimen and sample identifiers.
  \<^verbatim>\<open>setUuids\<close> walks through \<^verbatim>\<open>keyFieldsMapping.keys()\<close>, in the order of the
  dictionary; that order is the parameter \<open>items\<close> of the loop below, a rearrangement
  of this list.
\<close>

definition keyFieldsMapping :: "(string \<times> string list) list" where
  "keyFieldsMapping =
     [(''donor_uuid'', [''center_name'', ''submitter_donor_id'']),
      (''specimen_uuid'', [''center_name'', ''submitter_donor_id'', ''submitter_specimen_id'']),
      (''sample_uuid'', [''center_name'', ''submitter_donor_id'', ''submitter_specimen_id'',
                         ''submitter_sample_id''])]"

definition workflow_uuid_keys :: "string list" where
  "workflow_uuid_keys = [''sample_uuid'', ''workflow_name'', ''workflow_version'']"

text \<open>
  The loop \<^verbatim>\<open>for uuidName in keyFieldsMapping.keys()\<close>. The result is the row as
  changed so far and, if the loop ended \<^verbatim>\<open>setUuids\<close>, the field that was \<^verbatim>\<open>None\<close>.
  The identifier is a byte string.
\<close>

fun set_key_uuids ::
  "(string \<Rightarrow> string \<Rightarrow> string) \<Rightarrow> row \<Rightarrow> (string \<times> string list) list \<Rightarrow>
   error + (row \<times> string option)" where
  "set_key_uuids uuid5 dataObj [] = Inr (dataObj, None)"
| "set_key_uuids uuid5 dataObj ((uuidName, fieldNames) # items) =
     (case key_values dataObj fieldNames of
        Inl e \<Rightarrow> Inl e
      | Inr (Missing field) \<Rightarrow> Inr (dataObj, Some field)
      | Inr (Keys keyList) \<Rightarrow>
          (case generateUuid5 uuid5 NAMESPACE_URL keyList of
             Inl e \<Rightarrow> Inl e
           | Inr uuid \<Rightarrow> set_key_uuids uuid5 (dataObj(uuidName \<mapsto> Str uuid)) items))"

text \<open>
  \<^verbatim>\<open>setUuids\<close> returns \<^verbatim>\<open>None\<close> on every path; what it does is to change the row and
  to log. The result here is the row after the call and the errors logged.
\<close>

definition setUuids ::
  "(string \<Rightarrow> string \<Rightarrow> string) \<Rightarrow> (string \<times> string list) list \<Rightarrow> row \<Rightarrow>
   error + (row \<times> log_entry list)" where
  "setUuids uuid5 items dataObj =
     (case set_key_uuids uuid5 dataObj items of
        Inl e \<Rightarrow> Inl e
      | Inr (dataObj', Some field) \<Rightarrow> Inr (dataObj', [NotFound field])
      | Inr (dataObj', None) \<Rightarrow>
          (case key_values dataObj' workflow_uuid_keys of
             Inl e \<Rightarrow> Inl e
           | Inr (Missing field) \<Rightarrow> Inr (dataObj', [NotFound field])
           | Inr (Keys keyList) \<Rightarrow>
               (case generateUuid5 uuid5 NAMESPACE_URL keyList of
                  Inl e \<Rightarrow> Inl e
                | Inr uuid \<Rightarrow> Inr (dataObj'(''workflow_uuid'' \<mapsto> Str uuid), []))))"

text \<open>
  \<^verbatim>\<open>getValueFromObject\<close>: the value of a key, or the empty string if the dictionary
  has no such key. \<open>blank\<close> is the empty string as a value of the dictionary.
\<close>

definition getValueFromObject :: "'v \<Rightarrow> (string \<rightharpoonup> 'v) \<Rightarrow> string \<Rightarrow> 'v" where
  "getValueFromObject blank x y = (case x y of Some v \<Rightarrow> v | None \<Rightarrow> blank)"

text \<open>
  The object that \<^verbatim>\<open>getDataObj\<close> builds from the row after \<^verbatim>\<open>setUuids\<close>: the
  properties of the schema, and \<^verbatim>\<open>workflow_uuid\<close> if the row has it.
\<close>

definition build_dataObj :: "string list \<Rightarrow> row \<Rightarrow> row" where
  "build_dataObj propNames dict =
     (let dataObj = fold (\<lambda>propName dataObj.
                            dataObj(propName \<mapsto> getValueFromObject (Str []) dict propName))
                      propNames Map.empty
      in case dict ''workflow_uuid'' of
           None \<Rightarrow> dataObj
         | Some v \<Rightarrow> dataObj(''workflow_uuid'' \<mapsto> v))"

text \<open>
  \<^verbatim>\<open>getDataObj\<close>. The schema is given by its property names and by \<open>validate\<close>, the
  outcome of \<^verbatim>\<open>jsonschema.validate\<close> on an object (\<^verbatim>\<open>validateObjAgainstJsonSchema\<close>
  catches every exception of the validator, logs and returns \<^verbatim>\<open>False\<close>). The value
  of \<^verbatim>\<open>setUuids\<close> is not looked at, and an exception of \<^verbatim>\<open>setUuids\<close> is not caught.
  The result is the object or \<^verbatim>\<open>None\<close>, and the errors logged.
\<close>

definition getDataObj ::
  "(string \<Rightarrow> string \<Rightarrow> string) \<Rightarrow> (string \<times> string list) list \<Rightarrow> string list \<Rightarrow>
   (row \<Rightarrow> bool) \<Rightarrow> row \<Rightarrow> error + (row option \<times> log_entry list)" where
  "getDataObj uuid5 items propNames validate dict =
     (case setUuids uuid5 items dict of
        Inl e \<Rightarrow> Inl e
      | Inr (dict', log) \<Rightarrow>
          (let dataObj = build_dataObj propNames dict'
           in if validate dataObj then Inr (Some dataObj, log)
              else Inr (None, log @ [SchemaError, ValidationFailed])))"

text \<open>
  The loop of \<^verbatim>\<open>main\<close> over the rows of an input file:
  \<^verbatim>\<open>metaObj = getDataObj(data, schema); if metaObj is None: continue;
  flatMetadataObjs.append(metaObj)\<close>. There is no \<^verbatim>\<open>try\<close> around it.
\<close>

definition collect_row ::
  "(string \<Rightarrow> string \<Rightarrow> string) \<Rightarrow> (string \<times> string list) list \<Rightarrow> string list \<Rightarrow>
   (row \<Rightarrow> bool) \<Rightarrow> row list \<times> log_entry list \<Rightarrow> row \<Rightarrow>
   error + (row list \<times> log_entry list)" where
  "collect_row uuid5 items propNames validate st data =
     (case st of (flatMetadataObjs, log) \<Rightarrow>
        (case getDataObj uuid5 items propNames validate data of
           Inl e \<Rightarrow> Inl e
         | Inr (None, log') \<Rightarrow> Inr (flatMetadataObjs, log @ log')
         | Inr (Some metaObj, log') \<Rightarrow> Inr (flatMetadataObjs @ [metaObj], log @ log')))"

definition collect_rows ::
  "(string \<Rightarrow> string \<Rightarrow> string) \<Rightarrow> (string \<times> string list) list \<Rightarrow> string list \<Rightarrow>
   (row \<Rightarrow> bool) \<Rightarrow> row list \<Rightarrow> error + (row list \<times> log_entry list)" where
  "collect_rows uuid5 items propNames validate fileDataList =
     foldM (collect_row uuid5 items propNames validate) ([], []) fileDataList"

text \<open>The six fields from which the identifiers are derived.\<close>

definition business_keys :: "string list" where
  "business_keys =
     [''center_name'', ''submitter_donor_id'', ''submitter_specimen_id'',
      ''submitter_sample_id'', ''workflow_name'', ''workflow_version'']"

text \<open>
  Instances. \<open>uuid5_formal\<close> stands for the hash in the instances below: it writes
  the hash of a name as a formal expression, so that two identifiers are equal in an
  instance only if the namespaces and the names hashed are equal. The schema
  \<open>validate_strings\<close> requires the listed properties to be strings, as
  \<^verbatim>\<open>{"type": "string"}\<close> does.
\<close>

definition uuid5_formal :: "string \<Rightarrow> string \<Rightarrow> string" where
  "uuid5_formal namespace name = ''uuid5('' @ namespace @ '', '' @ name @ '')''"

definition validate_strings :: "string list \<Rightarrow> row \<Rightarrow> bool" where
  "validate_strings props obj =
     list_all (\<lambda>p. case obj p of
                     Some (Str s) \<Rightarrow> True
                   | Some (Unicode cs) \<Rightarrow> True
                   | _ \<Rightarrow> False) props"

definition row_complete :: row where
  "row_complete = map_of
     [(''center_name'', Str ''UCSC''), (''submitter_donor_id'', Str ''D1''),
      (''submitter_specimen_id'', Str ''S1''), (''submitter_sample_id'', Str ''A1''),
      (''workflow_name'', Str ''rnaseq''), (''workflow_version'', Str ''1.0.0'')]"

text \<open>A row whose line ends before the cell of \<^verbatim>\<open>workflow_version\<close>.\<close>

definition row_null_version :: row where
  "row_null_version = map_of
     [(''center_name'', Str ''UCSC''), (''submitter_donor_id'', Str ''D1''),
      (''submitter_specimen_id'', Str ''S1''), (''submitter_sample_id'', Str ''A1''),
      (''workflow_name'', Str ''rnaseq''), (''workflow_version'', NoneVal)]"

text \<open>A row of an input file that has no column \<^verbatim>\<open>workflow_version\<close>.\<close>

definition row_no_version :: row where
  "row_no_version = map_of
     [(''center_name'', Str ''UCSC''), (''submitter_donor_id'', Str ''D1''),
      (''submitter_specimen_id'', Str ''S1''), (''submitter_sample_id'', Str ''A1''),
      (''workflow_name'', Str ''rnaseq'')]"

text \<open>
  What is shown of the outcome of the loop over the rows: the value of one key in each
  object collected, and the log.
\<close>

definition summary ::
  "string \<Rightarrow> error + (row list \<times> log_entry list) \<Rightarrow>
   error + (pyval option list \<times> log_entry list)" where
  "summary key r =
     (case r of
        Inl e \<Rightarrow> Inl e
      | Inr (flatMetadataObjs, log) \<Rightarrow> Inr (map (\<lambda>obj. obj key) flatMetadataObjs, log))"

section \<open>getWorkflowObjects\<close>

text \<open>
  A flat metadata object, as it comes out of \<^verbatim>\<open>getDataObj\<close> after validation: a
  dictionary from property names to texts.
\<close>

type_synonym flat = "string \<rightharpoonup> string"

text \<open>
  The keys that \<^verbatim>\<open>getWorkflowObjects\<close> reads as \<^verbatim>\<open>metaObj[key]\<close> when it builds the
  object of a new \<^verbatim>\<open>workflow_uuid\<close>; each raises \<^verbatim>\<open>KeyError\<close> if it is not there.
  \<^verbatim>\<open>submitter_donor_primary_site\<close> is read with \<^verbatim>\<open>getValueFromObject\<close>.
\<close>

definition skeleton_keys :: "string list" where
  "skeleton_keys =
     [''program'', ''project'', ''center_name'', ''submitter_donor_id'', ''donor_uuid'',
      ''submitter_specimen_id'', ''submitter_specimen_type'',
      ''submitter_experimental_design'', ''specimen_uuid'',
      ''submitter_sample_id'', ''sample_uuid'',
      ''workflow_name'', ''workflow_version'', ''analysis_type'', ''workflow_uuid'']"

text \<open>
  The object built from the record \<open>metaObj\<close> at the time \<open>now\<close>, with the list
  \<open>outputs\<close> as \<^verbatim>\<open>workflow_outputs\<close> (empty when the object is created).
\<close>

definition workflowObj_of :: "string \<Rightarrow> flat \<Rightarrow> file_info list \<Rightarrow> donor" where
  "workflowObj_of now metaObj outputs =
     \<lparr>program = the (metaObj ''program''),
      project = the (metaObj ''project''),
      center_name = the (metaObj ''center_name''),
      submitter_donor_id = the (metaObj ''submitter_donor_id''),
      donor_uuid = the (metaObj ''donor_uuid''),
      submitter_donor_primary_site =
        getValueFromObject [] metaObj ''submitter_donor_primary_site'',
      timestamp = now,
      schema_version = ''0.0.3'',
      specimen =
        [\<lparr>submitter_specimen_id = the (metaObj ''submitter_specimen_id''),
          submitter_specimen_type = the (metaObj ''submitter_specimen_type''),
          submitter_experimental_design = the (metaObj ''submitter_experimental_design''),
          specimen_uuid = the (metaObj ''specimen_uuid''),
          samples =
            [\<lparr>submitter_sample_id = the (metaObj ''submitter_sample_id''),
              sample_uuid = the (metaObj ''sample_uuid''),
              analysis =
                [\<lparr>workflow_name = the (metaObj ''workflow_name''),
                  workflow_version = the (metaObj ''workflow_version''),
                  analysis_type = the (metaObj ''analysis_type''),
                  workflow_outputs = outputs,
                  bundle_uuid = the (metaObj ''workflow_uuid''),
                  a_timestamp = None\<rparr>]\<rparr>]\<rparr>]\<rparr>"

definition new_workflowObj :: "string \<Rightarrow> flat \<Rightarrow> error + donor" where
  "new_workflowObj now metaObj =
     (if list_all (\<lambda>k. metaObj k \<noteq> None) skeleton_keys
      then Inr (workflowObj_of now metaObj [])
      else Inl KeyError)"

text \<open>
  The file descriptor of a record. \<open>getsize\<close> is \<^verbatim>\<open>os.path.getsize\<close> and \<open>sha1sum\<close>
  the function of that name, on the file system of the run; \<open>None\<close> when the file
  cannot be read and the call raises.
\<close>

definition fileInfoObj_of ::
  "(string \<Rightarrow> nat option) \<Rightarrow> (string \<Rightarrow> string option) \<Rightarrow> flat \<Rightarrow> error + file_info" where
  "fileInfoObj_of getsize sha1sum metaObj =
     (case metaObj ''file_type'' of
        None \<Rightarrow> Inl KeyError
      | Some ft \<Rightarrow>
          (case metaObj ''file_path'' of
             None \<Rightarrow> Inl KeyError
           | Some fp \<Rightarrow>
               (case getsize fp of
                  None \<Rightarrow> Inl OSError
                | Some sz \<Rightarrow>
                    (case sha1sum fp of
                       None \<Rightarrow> Inl OSError
                     | Some sha \<Rightarrow>
                         Inr \<lparr>file_type = ft, file_path = fp,
                              file_size = sz, file_sha = sha\<rparr>))))"

text \<open>
  \<^verbatim>\<open>workflowObj["specimen"][0]["samples"][0]["analysis"][0]["workflow_outputs"]\<close> is
  looked up first (an empty list raises \<^verbatim>\<open>IndexError\<close>), then the descriptor is
  filled in and is the last element of that list.
\<close>

definition append_output :: "donor \<Rightarrow> error + file_info \<Rightarrow> error + donor" where
  "append_output workflowObj fileInfoObj =
     (case specimen workflowObj of
        [] \<Rightarrow> Inl IndexError
      | sp # sps \<Rightarrow>
          (case samples sp of
             [] \<Rightarrow> Inl IndexError
           | sa # sas \<Rightarrow>
               (case analysis sa of
                  [] \<Rightarrow> Inl IndexError
                | an # ans \<Rightarrow>
                    (case fileInfoObj of
                       Inl e \<Rightarrow> Inl e
                     | Inr fi \<Rightarrow>
                         Inr (workflowObj\<lparr>specimen :=
                                sp\<lparr>samples :=
                                  sa\<lparr>analysis :=
                                    an\<lparr>workflow_outputs := workflow_outputs an @ [fi]\<rparr> # ans\<rparr>
                                  # sas\<rparr>
                                # sps\<rparr>)))))"

text \<open>
  The body of \<^verbatim>\<open>for metaObj in flatMetadataObjs\<close>. The state is \<^verbatim>\<open>commonObjMap\<close> and
  the number of records done; \<open>getNow n\<close> is what \<^verbatim>\<open>getNow().isoformat()\<close> gives while
  record number \<open>n\<close> is processed.
\<close>

definition workflow_step ::
  "(nat \<Rightarrow> string) \<Rightarrow> (string \<Rightarrow> nat option) \<Rightarrow> (string \<Rightarrow> string option) \<Rightarrow>
   (string \<rightharpoonup> donor) \<times> nat \<Rightarrow> flat \<Rightarrow> error + ((string \<rightharpoonup> donor) \<times> nat)" where
  "workflow_step getNow getsize sha1sum st metaObj =
     (case st of (commonObjMap, n) \<Rightarrow>
        (case metaObj ''workflow_uuid'' of
           None \<Rightarrow> Inl KeyError
         | Some workflow_uuid \<Rightarrow>
             (case (if commonObjMap workflow_uuid \<noteq> None then Inr commonObjMap
                    else (case new_workflowObj (getNow n) metaObj of
                            Inl e \<Rightarrow> Inl e
                          | Inr workflowObj \<Rightarrow>
                              Inr (commonObjMap(workflow_uuid \<mapsto> workflowObj)))) of
                Inl e \<Rightarrow> Inl e
              | Inr commonObjMap' \<Rightarrow>
                  (case commonObjMap' workflow_uuid of
                     None \<Rightarrow> Inl KeyError
                   | Some workflowObj \<Rightarrow>
                       (case append_output workflowObj
                               (fileInfoObj_of getsize sha1sum metaObj) of
                          Inl e \<Rightarrow> Inl e
                        | Inr workflowObj' \<Rightarrow>
                            Inr (commonObjMap'(workflow_uuid \<mapsto> workflowObj'), Suc n))))))"

definition getWorkflowObjects ::
  "(nat \<Rightarrow> string) \<Rightarrow> (string \<Rightarrow> nat option) \<Rightarrow> (string \<Rightarrow> string option) \<Rightarrow>
   flat list \<Rightarrow> error + (string \<rightharpoonup> donor)" where
  "getWorkflowObjects getNow getsize sha1sum flatMetadataObjs =
     (case foldM (workflow_step getNow getsize sha1sum) (Map.empty, 0) flatMetadataObjs of
        Inl e \<Rightarrow> Inl e
      | Inr (commonObjMap, n) \<Rightarrow> Inr commonObjMap)"

text \<open>
  The records of one \<^verbatim>\<open>workflow_uuid\<close>, in input order, and the position of the first
  of them in the input.
\<close>

definition records_of :: "string \<Rightarrow> flat list \<Rightarrow> flat list" where
  "records_of w flatMetadataObjs = filter (\<lambda>m. m ''workflow_uuid'' = Some w) flatMetadataObjs"

definition first_index :: "string \<Rightarrow> flat list \<Rightarrow> nat" where
  "first_index w flatMetadataObjs =
     length (takeWhile (\<lambda>m. m ''workflow_uuid'' \<noteq> Some w) flatMetadataObjs)"

text \<open>A record that has all the keys that are read, and whose file can be read.\<close>

definition readable ::
  "(string \<Rightarrow> nat option) \<Rightarrow> (string \<Rightarrow> string option) \<Rightarrow> flat \<Rightarrow> bool" where
  "readable getsize sha1sum metaObj =
     (list_all (\<lambda>k. metaObj k \<noteq> None) skeleton_keys \<and> metaObj ''file_type'' \<noteq> None \<and>
      (case metaObj ''file_path'' of
         None \<Rightarrow> False
       | Some fp \<Rightarrow> getsize fp \<noteq> None \<and> sha1sum fp \<noteq> None))"

text \<open>
  Instances: three rows, two of one workflow and between them one of another; a clock
  that advances by a second with each record; a file system with the three files.
\<close>

definition flat_row :: "string \<Rightarrow> string \<Rightarrow> string \<Rightarrow> flat" where
  "flat_row w sample path = map_of
     [(''program'', ''TEST''), (''project'', ''P''), (''center_name'', ''UCSC''),
      (''submitter_donor_id'', ''D1''), (''donor_uuid'', ''d1''),
      (''submitter_specimen_id'', ''S1''), (''submitter_specimen_type'', ''Normal''),
      (''submitter_experimental_design'', ''RNA-Seq''), (''specimen_uuid'', ''sp1''),
      (''submitter_sample_id'', sample), (''sample_uuid'', sample),
      (''workflow_name'', ''rnaseq''), (''workflow_version'', ''1.0.0''),
      (''analysis_type'', ''alignment''), (''workflow_uuid'', w),
      (''file_type'', ''bam''), (''file_path'', path)]"

definition clock :: "nat \<Rightarrow> string" where
  "clock n = ''2017-01-01T00:00:0'' @ [char_of (48 + n)]"

definition disk_size :: "string \<Rightarrow> nat option" where
  "disk_size path = map_of [(''a.bam'', 10), (''b.bam'', 20), (''c.bam'', 30)] path"

definition disk_sha :: "string \<Rightarrow> string option" where
  "disk_sha path = map_of [(''a.bam'', ''sha-a''), (''b.bam'', ''sha-b''), (''c.bam'', ''sha-c'')] path"

definition three_rows :: "flat list" where
  "three_rows = [flat_row ''w1'' ''sa1'' ''a.bam'', flat_row ''w2'' ''sa2'' ''b.bam'',
                 flat_row ''w1'' ''sa1'' ''c.bam'']"

text \<open>
  What the loop keeps true of \<^verbatim>\<open>commonObjMap\<close> after the records \<open>xs\<close>: a key without
  a record has no object; the object of any other key is built from the first of its
  records, at the time of that record, and its outputs are the descriptors of its
  records, in order.
\<close>

definition assembled ::
  "(nat \<Rightarrow> string) \<Rightarrow> (string \<Rightarrow> nat option) \<Rightarrow> (string \<Rightarrow> string option) \<Rightarrow>
   flat list \<Rightarrow> (string \<rightharpoonup> donor) \<Rightarrow> bool" where
  "assembled getNow getsize sha1sum xs m =
     (\<forall>w. case records_of w xs of
             [] \<Rightarrow> m w = None
           | first # rest \<Rightarrow>
               (\<exists>outs. m w = Some (workflowObj_of (getNow (first_index w xs)) first outs)
                     \<and> map Inr outs = map (fileInfoObj_of getsize sha1sum) (first # rest)))"

section \<open>The timestamps that a merge records\<close>

text \<open>
  The words of the specification for the analysis step: an incoming entry is accepted
  as a new analysis type of the sample, or as the winner over the saved entry of its
  type. It wins if its version is strictly newer, or if the versions are equal, both
  entries have a timestamp and the incoming one is strictly later.
\<close>

definition wins ::
  "(string \<Rightarrow> string \<Rightarrow> int option) \<Rightarrow> parser \<Rightarrow> analysis \<Rightarrow> analysis \<Rightarrow> bool" where
  "wins compare parse analysisObj bundle =
     (compare (workflow_version analysisObj) (workflow_version bundle) = Some (- 1)
      \<or> (compare (workflow_version analysisObj) (workflow_version bundle) = Some 0
         \<and> (case (parse, a_timestamp analysisObj, a_timestamp bundle) of
              (Some parse_fn, Some saved_ts, Some new_ts) \<Rightarrow>
                (case (parse_fn saved_ts, parse_fn new_ts) of
                   (Inr saved_timestamp, Inr new_timestamp) \<Rightarrow>
                     (case datetime_sub saved_timestamp new_timestamp of
                        Inl e \<Rightarrow> False
                      | Inr timestamp_diff \<Rightarrow> timestamp_diff < 0)
                 | _ \<Rightarrow> False)
            | _ \<Rightarrow> False)))"

definition accepted ::
  "(string \<Rightarrow> string \<Rightarrow> int option) \<Rightarrow> parser \<Rightarrow> analysis list \<Rightarrow> analysis \<Rightarrow> bool" where
  "accepted compare parse saved bundle =
     (case find_last (\<lambda>s. analysis_type s = analysis_type bundle) saved of
        None \<Rightarrow> True
      | Some analysisObj \<Rightarrow> wins compare parse analysisObj bundle)"

text \<open>The timestamp of an entry, if it carries one.\<close>

definition stamp :: "analysis \<Rightarrow> string list" where
  "stamp bundle = (case a_timestamp bundle of None \<Rightarrow> [] | Some t \<Rightarrow> [t])"

text \<open>
  The timestamps that a loop records: those of the first element in the state \<open>s\<close>,
  then those of the other elements in the state that the loop body leaves.
\<close>

fun trace :: "('s \<Rightarrow> 'a \<Rightarrow> string list) \<Rightarrow> ('s \<Rightarrow> 'a \<Rightarrow> 's) \<Rightarrow> 's \<Rightarrow> 'a list \<Rightarrow> string list" where
  "trace ev nxt s [] = []"
| "trace ev nxt s (x # xs) = ev s x @ trace ev nxt (nxt s x) xs"

text \<open>The list that a loop body of the merge leaves, whatever it does to the timestamps.\<close>

definition after ::
  "('s \<times> string list \<Rightarrow> 'a \<Rightarrow> error + 's \<times> string list) \<Rightarrow> 's \<Rightarrow> 'a \<Rightarrow> 's" where
  "after step s x = (case step (s, []) x of Inl e \<Rightarrow> s | Inr (s', l) \<Rightarrow> s')"

text \<open>
  The timestamps recorded for the entries of an incoming sample whose \<^verbatim>\<open>sample_uuid\<close>
  is saved with the list \<open>saved\<close>: those of the entries accepted, each against the
  list as the entries before it have left it.
\<close>

definition recorded_in_sample ::
  "(string \<Rightarrow> string \<Rightarrow> int option) \<Rightarrow> parser \<Rightarrow> analysis list \<Rightarrow> analysis list \<Rightarrow> string list" where
  "recorded_in_sample compare parse saved bundles =
     trace (\<lambda>saved bundle. if accepted compare parse saved bundle then stamp bundle else [])
       (after (merge_analysis compare parse)) saved bundles"

text \<open>
  For the samples of an incoming specimen whose \<^verbatim>\<open>specimen_uuid\<close> is saved: a sample
  that is new to the specimen is taken over as it is and nothing is recorded for its
  entries; for a sample that is saved, its entries are compared.
\<close>

definition recorded_in_specimen ::
  "(string \<Rightarrow> string \<Rightarrow> int option) \<Rightarrow> parser \<Rightarrow> sample list \<Rightarrow> sample list \<Rightarrow> string list" where
  "recorded_in_specimen compare parse saved samples' =
     trace (\<lambda>saved sample.
              case find_last (\<lambda>s. sample_uuid s = sample_uuid sample) saved of
                None \<Rightarrow> []
              | Some sampleObj \<Rightarrow>
                  recorded_in_sample compare parse (analysis sampleObj) (analysis sample))
       (after (merge_sample compare parse)) saved samples'"

text \<open>
  For the specimens of a later bundle of a donor: likewise, nothing is recorded for a
  specimen that is new to the donor.
\<close>

definition recorded_in_donor ::
  "(string \<Rightarrow> string \<Rightarrow> int option) \<Rightarrow> parser \<Rightarrow> specimen list \<Rightarrow> specimen list \<Rightarrow> string list" where
  "recorded_in_donor compare parse saved specimens =
     trace (\<lambda>saved specimen'.
              case find_last (\<lambda>s. specimen_uuid s = specimen_uuid specimen') saved of
                None \<Rightarrow> []
              | Some specObj \<Rightarrow>
                  recorded_in_specimen compare parse (samples specObj) (samples specimen'))
       (after (merge_specimen compare parse)) saved specimens"

text \<open>
  For the donor \<open>d\<close> over a sequence of bundles, from the state \<open>st\<close>: nothing for the
  bundles of other donors and for the first bundle of \<open>d\<close>, and for each later bundle
  of \<open>d\<close> what its specimens record against the donor saved by then.
\<close>

definition after_bundle ::
  "(string \<Rightarrow> string \<Rightarrow> int option) \<Rightarrow> parser \<Rightarrow> merge_state \<Rightarrow> donor \<Rightarrow> merge_state" where
  "after_bundle compare parse st metaObj =
     (case merge_bundle compare parse st metaObj of Inl e \<Rightarrow> st | Inr st' \<Rightarrow> st')"

definition recorded ::
  "(string \<Rightarrow> string \<Rightarrow> int option) \<Rightarrow> parser \<Rightarrow> merge_state \<Rightarrow> donor list \<Rightarrow> string \<Rightarrow>
   string list" where
  "recorded compare parse st metadataObjs d =
     trace (\<lambda>st metaObj.
              if donor_uuid metaObj = d then
                (case donorMapping st d of
                   None \<Rightarrow> []
                 | Some donorObj \<Rightarrow>
                     recorded_in_donor compare parse (specimen donorObj) (specimen metaObj))
              else [])
       (after_bundle compare parse) st metadataObjs"


section \<open>Lookup and replacement\<close>

lemma fold_find_last:
  "fold (\<lambda>x r. if P x then Some x else r) xs r0 =
     (case find_last P xs of None \<Rightarrow> r0 | Some y \<Rightarrow> Some y)"
  unfolding find_last_def
  by (induction xs rule: rev_induct) simp_all

lemma find_last_Nil [simp]: "find_last P [] = None"
  by (simp add: find_last_def)

lemma find_last_snoc [simp]:
  "find_last P (xs @ [x]) = (if P x then Some x else find_last P xs)"
  by (simp add: find_last_def)

lemma find_last_Cons:
  "find_last P (x # xs) =
     (case find_last P xs of None \<Rightarrow> if P x then Some x else None | Some y \<Rightarrow> Some y)"
  using fold_find_last [of P xs "if P x then Some x else None"]
  by (simp add: find_last_def)

lemma find_last_None_iff: "find_last P xs = None \<longleftrightarrow> (\<forall>x\<in>set xs. \<not> P x)"
  by (induction xs rule: rev_induct) auto

lemma find_last_SomeD: "find_last P xs = Some y \<Longrightarrow> y \<in> set xs \<and> P y"
  by (induction xs rule: rev_induct) (auto split: if_splits)

lemma replace_last_same:
  "find_last P xs = Some y \<Longrightarrow> replace_last P y xs = xs"
  by (induction xs)
     (auto simp: find_last_Cons list_ex_iff find_last_None_iff
           dest: find_last_SomeD split: option.splits if_splits)

lemma map_replace_last:
  "(\<And>x. P x \<Longrightarrow> f x = f y) \<Longrightarrow> map f (replace_last P y xs) = map f xs"
  by (induction xs) auto

lemma set_replace_last: "set (replace_last P y xs) \<subseteq> insert y (set xs)"
  by (induction xs) auto

section \<open>Steps of the merge\<close>

lemma foldM_append:
  "foldM f s (xs @ ys) = (case foldM f s xs of Inl e \<Rightarrow> Inl e | Inr s' \<Rightarrow> foldM f s' ys)"
  by (induction xs arbitrary: s) (auto split: sum.splits)

lemma foldM_single: "foldM f s [x] = f s x"
  by (simp split: sum.splits)

lemma merge_all_snoc:
  "merge_all compare parse pre = Inr st \<Longrightarrow>
   merge_all compare parse (pre @ [B]) = merge_bundle compare parse st B"
  by (simp add: merge_all_def foldM_append split: sum.splits)

lemma merge_all_append:
  "merge_all compare parse (pre @ rest) =
     (case merge_all compare parse pre of
        Inl e \<Rightarrow> Inl e
      | Inr st \<Rightarrow> foldM (merge_bundle compare parse) st rest)"
  by (simp add: merge_all_def foldM_append)

text \<open>
  A bundle with one specimen, one sample and one analysis entry \<open>b\<close>, arriving when its
  donor, specimen and sample are already there: the step is the analysis step on the
  saved sample's list.
\<close>

lemma merge_bundle_path:
  assumes "donorMapping st (donor_uuid B) = Some donorObj"
    and "uuid_to_timestamp st (donor_uuid B) = Some timestamp_list"
    and "specimen B = [sp]" and "samples sp = [sa]" and "analysis sa = [b]"
    and "find_last (\<lambda>s. specimen_uuid s = specimen_uuid sp) (specimen donorObj) = Some specObj"
    and "find_last (\<lambda>s. sample_uuid s = sample_uuid sa) (samples specObj) = Some sampleObj"
  shows "merge_bundle compare parse st B =
    (case merge_analysis compare parse (analysis sampleObj, timestamp_list) b of
       Inl e \<Rightarrow> Inl e
     | Inr (as, tsl) \<Rightarrow>
         Inr (st\<lparr>donorMapping :=
                   (donorMapping st)(donor_uuid B \<mapsto> put_analysis donorObj specObj sampleObj as),
                 uuid_to_timestamp := (uuid_to_timestamp st)(donor_uuid B \<mapsto> tsl)\<rparr>))"
proof -
  have sp: "specimen_uuid specObj = specimen_uuid sp"
    using find_last_SomeD [OF assms(6)] by simp
  have sa: "sample_uuid sampleObj = sample_uuid sa"
    using find_last_SomeD [OF assms(7)] by simp
  show ?thesis
    using assms sp sa
    by (simp add: merge_bundle_def merge_specimen_def merge_sample_def put_analysis_def
        split: sum.splits)
qed

lemma put_analysis_same:
  assumes "find_last (\<lambda>s. specimen_uuid s = specimen_uuid sp) (specimen donorObj) = Some specObj"
    and "find_last (\<lambda>s. sample_uuid s = sample_uuid sa) (samples specObj) = Some sampleObj"
  shows "put_analysis donorObj specObj sampleObj (analysis sampleObj) = donorObj"
proof -
  have sp: "specimen_uuid specObj = specimen_uuid sp"
    using find_last_SomeD [OF assms(1)] by simp
  have sa: "sample_uuid sampleObj = sample_uuid sa"
    using find_last_SomeD [OF assms(2)] by simp
  show ?thesis
    using assms
    by (simp add: put_analysis_def sp sa replace_last_same)
qed

lemma state_unchanged:
  assumes "donorMapping st d = Some donorObj" and "uuid_to_timestamp st d = Some l"
  shows "st\<lparr>donorMapping := (donorMapping st)(d \<mapsto> donorObj),
            uuid_to_timestamp := (uuid_to_timestamp st)(d \<mapsto> l)\<rparr> = st"
  using assms by (simp add: map_upd_triv)

lemma merge_all_single:
  "merge_all compare parse [A] =
     Inr \<lparr>donorMapping = [donor_uuid A \<mapsto> A],
          uuid_to_timestamp = [donor_uuid A \<mapsto> [timestamp A]],
          uuid_keys = [donor_uuid A]\<rparr>"
  by (simp add: merge_all_def merge_bundle_def empty_state_def)

lemma semver_plain_1_2: "semver_plain ''1.0.0'' ''2.0.0'' = Some (- 1)"
  by code_simp

section \<open>Conflict resolution by version\<close>

text \<open>
  Claim C1. A bundle \<open>B\<close> with one specimen, one sample and one analysis entry \<open>b\<close>
  arrives after the bundles \<open>pre\<close>, its donor, specimen and sample are already in the
  mapping, and the saved sample has an entry \<open>analysisObj\<close> of the same
  \<^verbatim>\<open>analysis_type\<close>. If \<^verbatim>\<open>semver.compare\<close> of the saved and the incoming version is
  \<open>-1\<close> (the incoming one is newer), the saved entry is removed from the sample's list
  and \<open>b\<close> is appended to it; if it is \<open>1\<close> (the incoming one is older), nothing
  changes: \<open>b\<close> is discarded.
\<close>

theorem version_conflict:
  assumes "merge_all compare parse pre = Inr st"
    and "donorMapping st (donor_uuid B) = Some donorObj"
    and "uuid_to_timestamp st (donor_uuid B) = Some timestamp_list"
    and "specimen B = [sp]" and "samples sp = [sa]" and "analysis sa = [b]"
    and "find_last (\<lambda>s. specimen_uuid s = specimen_uuid sp) (specimen donorObj) = Some specObj"
    and "find_last (\<lambda>s. sample_uuid s = sample_uuid sa) (samples specObj) = Some sampleObj"
    and "find_last (\<lambda>s. analysis_type s = analysis_type b) (analysis sampleObj) = Some analysisObj"
    and "compare (workflow_version analysisObj) (workflow_version b) = Some c"
  shows "(c = - 1 \<longrightarrow>
            merge_all compare parse (pre @ [B]) =
              Inr (st\<lparr>donorMapping :=
                        (donorMapping st)(donor_uuid B \<mapsto>
                           put_analysis donorObj specObj sampleObj
                             (remove1 analysisObj (analysis sampleObj) @ [b])),
                      uuid_to_timestamp :=
                        (uuid_to_timestamp st)(donor_uuid B \<mapsto>
                           record_timestamp b timestamp_list)\<rparr>))
       \<and> (c = 1 \<longrightarrow> merge_all compare parse (pre @ [B]) = Inr st)"
proof (intro conjI impI)
  assume "c = - 1"
  then show "merge_all compare parse (pre @ [B]) =
              Inr (st\<lparr>donorMapping :=
                        (donorMapping st)(donor_uuid B \<mapsto>
                           put_analysis donorObj specObj sampleObj
                             (remove1 analysisObj (analysis sampleObj) @ [b])),
                      uuid_to_timestamp :=
                        (uuid_to_timestamp st)(donor_uuid B \<mapsto>
                           record_timestamp b timestamp_list)\<rparr>)"
    using assms(1,9,10)
    by (simp add: merge_all_append merge_bundle_path [OF assms(2-8)] merge_analysis_def)
next
  assume "c = 1"
  then have "merge_analysis compare parse (analysis sampleObj, timestamp_list) b =
      Inr (analysis sampleObj, timestamp_list)"
    using assms(9,10) by (simp add: merge_analysis_def)
  then show "merge_all compare parse (pre @ [B]) = Inr st"
    using assms(1)
    by (simp add: merge_all_append merge_bundle_path [OF assms(2-8)]
        put_analysis_same [OF assms(7,8)] state_unchanged [OF assms(2,3)])
qed

text \<open>
  The instance of the specification: the entries \<^verbatim>\<open>1.0.0\<close> and \<^verbatim>\<open>2.0.0\<close>, oldest
  first. The merged donor has the \<^verbatim>\<open>2.0.0\<close> entry only.
\<close>

theorem version_conflict_witness:
  "map_option all_analysis
     (lookup_donor (mergeDonors semver_plain dateutil_parser ([bundle_v1] @ [bundle_v2])) ''d1'')
   = Some [entry ''rnaseq'' ''2.0.0'' ''alignment'' None]"
proof -
  let ?sa = "\<lparr>submitter_sample_id = ''sa1'', sample_uuid = ''sa1'',
              analysis = [entry ''rnaseq'' ''1.0.0'' ''alignment'' None]\<rparr>"
  let ?sa2 = "\<lparr>submitter_sample_id = ''sa1'', sample_uuid = ''sa1'',
              analysis = [entry ''rnaseq'' ''2.0.0'' ''alignment'' None]\<rparr>"
  let ?sp = "\<lparr>submitter_specimen_id = ''sp1'', submitter_specimen_type = ''Normal'',
          submitter_experimental_design = ''RNA-Seq'', specimen_uuid = ''sp1'',
          samples = [?sa]\<rparr>"
  let ?sp2 = "\<lparr>submitter_specimen_id = ''sp1'', submitter_specimen_type = ''Normal'',
          submitter_experimental_design = ''RNA-Seq'', specimen_uuid = ''sp1'',
          samples = [?sa2]\<rparr>"
  have "merge_all semver_plain dateutil_parser ([bundle_v1] @ [bundle_v2]) =
      Inr \<lparr>donorMapping =
             [''d1'' \<mapsto> put_analysis bundle_v1 ?sp ?sa
                (remove1 (entry ''rnaseq'' ''1.0.0'' ''alignment'' None)
                   [entry ''rnaseq'' ''1.0.0'' ''alignment'' None]
                 @ [entry ''rnaseq'' ''2.0.0'' ''alignment'' None])],
           uuid_to_timestamp = [''d1'' \<mapsto> [''2017-01-01T00:00:00'']],
           uuid_keys = [''d1'']\<rparr>"
    using version_conflict [of semver_plain dateutil_parser "[bundle_v1]" _ bundle_v2 bundle_v1
        "[''2017-01-01T00:00:00'']" ?sp2 ?sa2 "entry ''rnaseq'' ''2.0.0'' ''alignment'' None"
        ?sp ?sa "entry ''rnaseq'' ''1.0.0'' ''alignment'' None" "- 1",
        OF merge_all_single]
    by (simp add: bundle_v1_def bundle_v2_def path_bundle_def entry_def find_last_def
        semver_plain_1_2 record_timestamp_def)
  then show ?thesis
    by (simp add: mergeDonors_def lookup_donor_def all_analysis_def put_analysis_def
        bundle_v1_def path_bundle_def entry_def)
qed

section \<open>Conflict resolution by timestamp\<close>

lemma semver_plain_1_1: "semver_plain ''1.0.0'' ''1.0.0'' = Some 0"
  by code_simp

lemma iso_parse_march: "iso_parse ''2017-03-01T00:00:00'' = Inr (Naive 1488326400000000)"
  by code_simp

lemma iso_parse_april: "iso_parse ''2017-04-01T00:00:00'' = Inr (Naive 1491004800000000)"
  by code_simp

text \<open>
  The step of the loop for a bundle \<open>B\<close> with one specimen, one sample and one analysis
  entry \<open>b\<close> that arrives after the bundles \<open>pre\<close>, when its donor, specimen and sample
  are already in the mapping: the analysis step decides.
\<close>

lemma merge_all_path:
  assumes "merge_all compare parse pre = Inr st"
    and "donorMapping st (donor_uuid B) = Some donorObj"
    and "uuid_to_timestamp st (donor_uuid B) = Some timestamp_list"
    and "specimen B = [sp]" and "samples sp = [sa]" and "analysis sa = [b]"
    and "find_last (\<lambda>s. specimen_uuid s = specimen_uuid sp) (specimen donorObj) = Some specObj"
    and "find_last (\<lambda>s. sample_uuid s = sample_uuid sa) (samples specObj) = Some sampleObj"
  shows "merge_all compare parse (pre @ [B]) =
      (case merge_analysis compare parse (analysis sampleObj, timestamp_list) b of
         Inl e \<Rightarrow> Inl e
       | Inr (as, tsl) \<Rightarrow>
           Inr (st\<lparr>donorMapping :=
                     (donorMapping st)(donor_uuid B \<mapsto> put_analysis donorObj specObj sampleObj as),
                   uuid_to_timestamp := (uuid_to_timestamp st)(donor_uuid B \<mapsto> tsl)\<rparr>))"
  by (simp add: merge_all_snoc [OF assms(1)] merge_bundle_path [OF assms(2-8)])

lemma merge_all_path_keep:
  assumes "merge_all compare parse pre = Inr st"
    and "donorMapping st (donor_uuid B) = Some donorObj"
    and "uuid_to_timestamp st (donor_uuid B) = Some timestamp_list"
    and "specimen B = [sp]" and "samples sp = [sa]" and "analysis sa = [b]"
    and "find_last (\<lambda>s. specimen_uuid s = specimen_uuid sp) (specimen donorObj) = Some specObj"
    and "find_last (\<lambda>s. sample_uuid s = sample_uuid sa) (samples specObj) = Some sampleObj"
    and "merge_analysis compare parse (analysis sampleObj, timestamp_list) b =
          Inr (analysis sampleObj, timestamp_list)"
  shows "merge_all compare parse (pre @ [B]) = Inr st"
  using assms(9) merge_all_path [OF assms(1-8)]
  by (simp add: put_analysis_same [OF assms(7,8)] state_unchanged [OF assms(2,3)])

lemma mergeDonors_Inl:
  "merge_all compare parse bs = Inl e \<Longrightarrow> mergeDonors compare parse bs = Inl e"
  by (simp add: mergeDonors_def)

text \<open>
  What the tie-break does where the lookup of \<^verbatim>\<open>dateutil.parser\<close> succeeds and finds
  the function \<open>p\<close>: if both entries have a timestamp, both timestamps parse and the
  two times can be subtracted, the incoming entry replaces the saved one when the
  saved time is strictly earlier, and is discarded when it is not.
\<close>

lemma tie_break_with_parser:
  assumes "merge_all compare (Some p) pre = Inr st"
    and "donorMapping st (donor_uuid B) = Some donorObj"
    and "uuid_to_timestamp st (donor_uuid B) = Some timestamp_list"
    and "specimen B = [sp]" and "samples sp = [sa]" and "analysis sa = [b]"
    and "find_last (\<lambda>s. specimen_uuid s = specimen_uuid sp) (specimen donorObj) = Some specObj"
    and "find_last (\<lambda>s. sample_uuid s = sample_uuid sa) (samples specObj) = Some sampleObj"
    and "find_last (\<lambda>s. analysis_type s = analysis_type b) (analysis sampleObj) = Some analysisObj"
    and "compare (workflow_version analysisObj) (workflow_version b) = Some 0"
    and "a_timestamp analysisObj = Some saved_ts" and "a_timestamp b = Some new_ts"
    and "p saved_ts = Inr saved_time" and "p new_ts = Inr new_time"
    and "datetime_sub saved_time new_time = Inr diff"
  shows "diff < 0 \<Longrightarrow>
           merge_all compare (Some p) (pre @ [B]) =
             Inr (st\<lparr>donorMapping :=
                       (donorMapping st)(donor_uuid B \<mapsto>
                          put_analysis donorObj specObj sampleObj
                            (remove1 analysisObj (analysis sampleObj) @ [b])),
                     uuid_to_timestamp :=
                       (uuid_to_timestamp st)(donor_uuid B \<mapsto> timestamp_list @ [new_ts])\<rparr>)"
    and "0 \<le> diff \<Longrightarrow> merge_all compare (Some p) (pre @ [B]) = Inr st"
proof -
  assume "diff < 0"
  then show "merge_all compare (Some p) (pre @ [B]) =
             Inr (st\<lparr>donorMapping :=
                       (donorMapping st)(donor_uuid B \<mapsto>
                          put_analysis donorObj specObj sampleObj
                            (remove1 analysisObj (analysis sampleObj) @ [b])),
                     uuid_to_timestamp :=
                       (uuid_to_timestamp st)(donor_uuid B \<mapsto> timestamp_list @ [new_ts])\<rparr>)"
    using assms(9-15)
    by (simp add: merge_all_path [OF assms(1-8)] merge_analysis_def record_timestamp_def)
next
  assume "0 \<le> diff"
  then have "merge_analysis compare (Some p) (analysis sampleObj, timestamp_list) b =
          Inr (analysis sampleObj, timestamp_list)"
    using assms(9-15) by (simp add: merge_analysis_def)
  then show "merge_all compare (Some p) (pre @ [B]) = Inr st"
    by (rule merge_all_path_keep [OF assms(1-8)])
qed

text \<open>
  With such a parser, for any two bundles of one specimen, one sample and one entry
  each, with equal versions and naive timestamps \<open>t1\<close> before \<open>t2\<close>: in either order,
  the merged donor has the entry of \<open>t2\<close> only. This is what claim C2 says.
\<close>

lemma tie_break_either_order:
  assumes "specimen X = [spx]" and "samples spx = [sax]" and "analysis sax = [x]"
    and "specimen Y = [spy]" and "samples spy = [say]" and "analysis say = [y]"
    and "donor_uuid X = donor_uuid Y" and "specimen_uuid spx = specimen_uuid spy"
    and "sample_uuid sax = sample_uuid say" and "analysis_type x = analysis_type y"
    and "compare (workflow_version x) (workflow_version y) = Some 0"
    and "compare (workflow_version y) (workflow_version x) = Some 0"
    and "a_timestamp x = Some t1" and "a_timestamp y = Some t2"
    and "p t1 = Inr (Naive p1)" and "p t2 = Inr (Naive p2)" and "p1 < p2"
  shows "map_option all_analysis
           (lookup_donor (mergeDonors compare (Some p) [X, Y]) (donor_uuid X)) = Some [y]
       \<and> map_option all_analysis
           (lookup_donor (mergeDonors compare (Some p) [Y, X]) (donor_uuid X)) = Some [y]"
  using assms
  by (simp add: mergeDonors_def merge_all_def merge_bundle_def empty_state_def
      merge_specimen_def merge_sample_def merge_analysis_def find_last_def
      lookup_donor_def all_analysis_def record_timestamp_def)

text \<open>
  Claim C2, as the code has it. A bundle \<open>B\<close> with one specimen, one sample and one
  analysis entry \<open>b\<close> arrives after the bundles \<open>pre\<close>, its donor, specimen and sample
  are already in the mapping, the saved sample has an entry \<open>analysisObj\<close> of the same
  \<^verbatim>\<open>analysis_type\<close>, and \<^verbatim>\<open>semver.compare\<close> of the saved and the incoming version is
  \<open>0\<close>. If one of the two entries has no timestamp, nothing changes, as the claim
  says. If both have one, the program looks up \<^verbatim>\<open>dateutil.parser\<close>, which
  \<^verbatim>\<open>import dateutil\<close> has not loaded: the merge raises \<^verbatim>\<open>AttributeError\<close>, whatever
  the two timestamps are, and no entry is kept.
\<close>

theorem timestamp_tie_break:
  assumes "merge_all compare dateutil_parser pre = Inr st"
    and "donorMapping st (donor_uuid B) = Some donorObj"
    and "uuid_to_timestamp st (donor_uuid B) = Some timestamp_list"
    and "specimen B = [sp]" and "samples sp = [sa]" and "analysis sa = [b]"
    and "find_last (\<lambda>s. specimen_uuid s = specimen_uuid sp) (specimen donorObj) = Some specObj"
    and "find_last (\<lambda>s. sample_uuid s = sample_uuid sa) (samples specObj) = Some sampleObj"
    and "find_last (\<lambda>s. analysis_type s = analysis_type b) (analysis sampleObj) = Some analysisObj"
    and "compare (workflow_version analysisObj) (workflow_version b) = Some 0"
  shows "(a_timestamp analysisObj \<noteq> None \<and> a_timestamp b \<noteq> None \<longrightarrow>
            mergeDonors compare dateutil_parser (pre @ B # post) = Inl AttributeError)
       \<and> (a_timestamp analysisObj = None \<or> a_timestamp b = None \<longrightarrow>
            merge_all compare dateutil_parser (pre @ [B]) = Inr st)"
proof (intro conjI impI)
  assume "a_timestamp analysisObj \<noteq> None \<and> a_timestamp b \<noteq> None"
  then have "merge_analysis compare dateutil_parser (analysis sampleObj, timestamp_list) b =
          Inl AttributeError"
    using assms(9,10) by (auto simp: merge_analysis_def dateutil_parser_def)
  then have "merge_all compare dateutil_parser (pre @ [B]) = Inl AttributeError"
    by (simp add: merge_all_path [OF assms(1-8)])
  then have "merge_all compare dateutil_parser ((pre @ [B]) @ post) = Inl AttributeError"
    by (simp only: merge_all_append [of compare dateutil_parser "pre @ [B]" post] sum.case)
  then have "merge_all compare dateutil_parser (pre @ B # post) = Inl AttributeError"
    by simp
  then show "mergeDonors compare dateutil_parser (pre @ B # post) = Inl AttributeError"
    by (rule mergeDonors_Inl)
next
  assume "a_timestamp analysisObj = None \<or> a_timestamp b = None"
  then have "merge_analysis compare dateutil_parser (analysis sampleObj, timestamp_list) b =
          Inr (analysis sampleObj, timestamp_list)"
    using assms(9,10) by (auto simp: merge_analysis_def split: option.splits)
  then show "merge_all compare dateutil_parser (pre @ [B]) = Inr st"
    by (rule merge_all_path_keep [OF assms(1-8)])
qed

text \<open>
  The instance of the specification: equal versions \<^verbatim>\<open>1.0.0\<close>, timestamps of
  1 March and 1 April 2017. In both orders the merge raises.
\<close>

theorem timestamp_tie_break_witness:
  "mergeDonors semver_plain dateutil_parser ([bundle_t1] @ bundle_t2 # []) = Inl AttributeError
   \<and> mergeDonors semver_plain dateutil_parser ([bundle_t2] @ bundle_t1 # []) = Inl AttributeError"
proof -
  let ?e1 = "entry ''rnaseq'' ''1.0.0'' ''alignment'' (Some ''2017-03-01T00:00:00'')"
  let ?e2 = "entry ''rnaseq'' ''1.0.0'' ''alignment'' (Some ''2017-04-01T00:00:00'')"
  let ?sa1 = "\<lparr>submitter_sample_id = ''sa1'', sample_uuid = ''sa1'', analysis = [?e1]\<rparr>"
  let ?sa2 = "\<lparr>submitter_sample_id = ''sa1'', sample_uuid = ''sa1'', analysis = [?e2]\<rparr>"
  let ?sp1 = "\<lparr>submitter_specimen_id = ''sp1'', submitter_specimen_type = ''Normal'',
          submitter_experimental_design = ''RNA-Seq'', specimen_uuid = ''sp1'',
          samples = [?sa1]\<rparr>"
  let ?sp2 = "\<lparr>submitter_specimen_id = ''sp1'', submitter_specimen_type = ''Normal'',
          submitter_experimental_design = ''RNA-Seq'', specimen_uuid = ''sp1'',
          samples = [?sa2]\<rparr>"
  have forward:
    "mergeDonors semver_plain dateutil_parser ([bundle_t1] @ bundle_t2 # []) = Inl AttributeError"
    using timestamp_tie_break [where compare = semver_plain
        and pre = "[bundle_t1]" and B = bundle_t2 and post = "[]" and donorObj = bundle_t1
        and timestamp_list = "[''2017-03-01T00:00:00'']"
        and sp = ?sp2 and sa = ?sa2 and b = ?e2
        and specObj = ?sp1 and sampleObj = ?sa1 and analysisObj = ?e1,
        OF merge_all_single]
    by (simp add: bundle_t1_def bundle_t2_def path_bundle_def entry_def find_last_def
        semver_plain_1_1)
  have backward:
    "mergeDonors semver_plain dateutil_parser ([bundle_t2] @ bundle_t1 # []) = Inl AttributeError"
    using timestamp_tie_break [where compare = semver_plain
        and pre = "[bundle_t2]" and B = bundle_t1 and post = "[]" and donorObj = bundle_t2
        and timestamp_list = "[''2017-04-01T00:00:00'']"
        and sp = ?sp1 and sa = ?sa1 and b = ?e1
        and specObj = ?sp2 and sampleObj = ?sa2 and analysisObj = ?e2,
        OF merge_all_single]
    by (simp add: bundle_t1_def bundle_t2_def path_bundle_def entry_def find_last_def
        semver_plain_1_1)
  from forward backward show ?thesis by simp
qed

text \<open>
  The same two bundles with a parser: the merged donor has the April entry only.
\<close>

lemma tie_break_march_april:
  "map_option all_analysis
     (lookup_donor (mergeDonors semver_plain (Some iso_parse) [bundle_t1, bundle_t2]) ''d1'')
   = Some [entry ''rnaseq'' ''1.0.0'' ''alignment'' (Some ''2017-04-01T00:00:00'')]
   \<and> map_option all_analysis
     (lookup_donor (mergeDonors semver_plain (Some iso_parse) [bundle_t2, bundle_t1]) ''d1'')
   = Some [entry ''rnaseq'' ''1.0.0'' ''alignment'' (Some ''2017-04-01T00:00:00'')]"
  by code_simp


section \<open>A version that does not parse\<close>

lemma semver_plain_bad_new: "semver_plain ''1.0.0'' ''latest'' = None"
  by code_simp

lemma semver_plain_bad_saved: "semver_plain ''latest'' ''2.0.0'' = None"
  by code_simp

text \<open>
  Claim C9. A bundle \<open>B\<close> with one specimen, one sample and one analysis entry
  \<open>b\<close> arrives after the bundles \<open>pre\<close>, its donor, specimen and sample are
  already in the mapping, and the saved sample has an entry \<open>analysisObj\<close> of the
  same \<^verbatim>\<open>analysis_type\<close>. If \<^verbatim>\<open>semver.compare\<close> raises on the saved and the incoming
  version, the exception leaves the loop over the bundles and \<^verbatim>\<open>mergeDonors\<close>:
  whatever bundles follow, there is no merged mapping.
\<close>

theorem malformed_version_aborts:
  assumes "merge_all compare parse pre = Inr st"
    and "donorMapping st (donor_uuid B) = Some donorObj"
    and "uuid_to_timestamp st (donor_uuid B) = Some timestamp_list"
    and "specimen B = [sp]" and "samples sp = [sa]" and "analysis sa = [b]"
    and "find_last (\<lambda>s. specimen_uuid s = specimen_uuid sp) (specimen donorObj) = Some specObj"
    and "find_last (\<lambda>s. sample_uuid s = sample_uuid sa) (samples specObj) = Some sampleObj"
    and "find_last (\<lambda>s. analysis_type s = analysis_type b) (analysis sampleObj) = Some analysisObj"
    and "compare (workflow_version analysisObj) (workflow_version b) = None"
  shows "merge_all compare parse (pre @ B # rest) = Inl SemverError
       \<and> mergeDonors compare parse (pre @ B # rest) = Inl SemverError"
proof -
  have "merge_bundle compare parse st B = Inl SemverError"
    using assms(9,10) by (simp add: merge_bundle_path [OF assms(2-8)] merge_analysis_def)
  then have "merge_all compare parse (pre @ B # rest) = Inl SemverError"
    using assms(1) by (simp add: merge_all_append)
  then show ?thesis by (simp add: mergeDonors_def)
qed

text \<open>
  Instances: the malformed version in the incoming entry, and in the saved one; a
  well-formed bundle follows in both.
\<close>

theorem malformed_version_aborts_witness:
  "mergeDonors semver_plain dateutil_parser ([bundle_v1] @ bundle_bad # [bundle_v2]) = Inl SemverError
   \<and> mergeDonors semver_plain dateutil_parser ([bundle_bad] @ bundle_v2 # [bundle_v1]) = Inl SemverError"
proof -
  let ?e1 = "entry ''rnaseq'' ''1.0.0'' ''alignment'' None"
  let ?e2 = "entry ''rnaseq'' ''2.0.0'' ''alignment'' None"
  let ?eb = "entry ''rnaseq'' ''latest'' ''alignment'' None"
  let ?sa = "\<lambda>e. \<lparr>submitter_sample_id = ''sa1'', sample_uuid = ''sa1'', analysis = [e]\<rparr>"
  let ?sp = "\<lambda>e. \<lparr>submitter_specimen_id = ''sp1'', submitter_specimen_type = ''Normal'',
          submitter_experimental_design = ''RNA-Seq'', specimen_uuid = ''sp1'',
          samples = [?sa e]\<rparr>"
  have incoming:
    "mergeDonors semver_plain dateutil_parser ([bundle_v1] @ bundle_bad # [bundle_v2]) = Inl SemverError"
    using malformed_version_aborts [where compare = semver_plain and parse = dateutil_parser
        and pre = "[bundle_v1]" and B = bundle_bad and donorObj = bundle_v1
        and timestamp_list = "[''2017-01-01T00:00:00'']"
        and sp = "?sp ?eb" and sa = "?sa ?eb" and b = ?eb
        and specObj = "?sp ?e1" and sampleObj = "?sa ?e1" and analysisObj = ?e1
        and rest = "[bundle_v2]", OF merge_all_single]
    by (simp add: bundle_v1_def bundle_bad_def path_bundle_def entry_def find_last_def
        semver_plain_bad_new)
  have saved:
    "mergeDonors semver_plain dateutil_parser ([bundle_bad] @ bundle_v2 # [bundle_v1]) = Inl SemverError"
    using malformed_version_aborts [where compare = semver_plain and parse = dateutil_parser
        and pre = "[bundle_bad]" and B = bundle_v2 and donorObj = bundle_bad
        and timestamp_list = "[''2017-03-01T00:00:00'']"
        and sp = "?sp ?e2" and sa = "?sa ?e2" and b = ?e2
        and specObj = "?sp ?eb" and sampleObj = "?sa ?eb" and analysisObj = ?eb
        and rest = "[bundle_v1]", OF merge_all_single]
    by (simp add: bundle_v2_def bundle_bad_def path_bundle_def entry_def find_last_def
        semver_plain_bad_saved)
  from incoming saved show ?thesis by simp
qed

section \<open>Bundles of different donors\<close>



section \<open>The state of the loop over the bundles\<close>

lemma first_bundle_snoc:
  "first_bundle d (bs @ [B]) =
     (case first_bundle d bs of
        None \<Rightarrow> if donor_uuid B = d then Some B else None
      | Some f \<Rightarrow> Some f)"
  unfolding first_bundle_def by (induction bs) auto

lemma first_bundle_None_iff: "first_bundle d bs = None \<longleftrightarrow> d \<notin> donor_uuid ` set bs"
  unfolding first_bundle_def by (auto simp: find_None_iff)

lemma first_bundle_SomeD: "first_bundle d bs = Some f \<Longrightarrow> f \<in> set bs \<and> donor_uuid f = d"
  unfolding first_bundle_def by (auto simp: find_Some_iff)

lemma merge_inv_empty: "merge_inv [] empty_state"
  by (simp add: merge_inv_def empty_state_def first_bundle_def)

lemma merge_inv_NoneD:
  assumes "merge_inv bs st" and "first_bundle d bs = None"
  shows "donorMapping st d = None \<and> uuid_to_timestamp st d = None"
proof -
  from assms(1) have "case first_bundle d bs of
              None \<Rightarrow> donorMapping st d = None \<and> uuid_to_timestamp st d = None
            | Some f \<Rightarrow>
                (\<exists>sp l. donorMapping st d = Some (f\<lparr>specimen := sp\<rparr>)
                       \<and> uuid_to_timestamp st d = Some (timestamp f # l))"
    unfolding merge_inv_def by blast
  with assms(2) show ?thesis by simp
qed

lemma merge_inv_SomeD:
  assumes "merge_inv bs st" and "first_bundle d bs = Some f"
  shows "\<exists>sp l. donorMapping st d = Some (f\<lparr>specimen := sp\<rparr>)
               \<and> uuid_to_timestamp st d = Some (timestamp f # l)"
proof -
  from assms(1) have "case first_bundle d bs of
              None \<Rightarrow> donorMapping st d = None \<and> uuid_to_timestamp st d = None
            | Some f \<Rightarrow>
                (\<exists>sp l. donorMapping st d = Some (f\<lparr>specimen := sp\<rparr>)
                       \<and> uuid_to_timestamp st d = Some (timestamp f # l))"
    unfolding merge_inv_def by blast
  with assms(2) show ?thesis by simp
qed

lemma merge_inv_keys:
  assumes "merge_inv bs st"
  shows "distinct (uuid_keys st)" and "set (uuid_keys st) = donor_uuid ` set bs"
  using assms unfolding merge_inv_def by blast+

lemma merge_inv_donor_None:
  assumes "merge_inv bs st" and "donorMapping st d = None"
  shows "first_bundle d bs = None"
proof (cases "first_bundle d bs")
  case (Some f)
  from merge_inv_SomeD [OF assms(1) Some] assms(2) show ?thesis by auto
qed simp

text \<open>What a loop body keeps true, the loop keeps true.\<close>

lemma foldM_invariant:
  assumes "foldM f s xs = Inr s'" and "P s"
    and "\<And>s x s'. x \<in> set xs \<Longrightarrow> P s \<Longrightarrow> f s x = Inr s' \<Longrightarrow> P s'"
  shows "P s'"
  using assms
proof (induction xs arbitrary: s)
  case Nil
  then show ?case by simp
next
  case (Cons x xs)
  from Cons.prems(1) obtain s1 where s1: "f s x = Inr s1" and rest: "foldM f s1 xs = Inr s'"
    by (auto split: sum.splits)
  have "P s1" using Cons.prems(3) [of x s s1] Cons.prems(2) s1 by simp
  moreover have "P t'" if "y \<in> set xs" and "P t" and "f t y = Inr t'" for t y t'
    using Cons.prems(3) [of y t t'] that by simp
  ultimately show ?case
    using Cons.IH [OF rest] by blast
qed

text \<open>The timestamp list only grows, at its end.\<close>

lemma merge_analysis_timestamps:
  assumes "merge_analysis compare parse (saved, l) b = Inr (saved', l')"
  shows "\<exists>k. l' = l @ k"
  using assms
  by (auto simp: merge_analysis_def record_timestamp_def
      split: option.splits sum.splits if_splits)

lemma merge_analysis_accepts:
  assumes "merge_analysis compare parse (saved, l) b = Inr (saved', l')"
  shows "(saved' = saved \<and> l' = l)
       \<or> ((saved' = saved @ [b] \<or> (\<exists>a \<in> set saved. saved' = remove1 a saved @ [b]))
          \<and> l' = record_timestamp b l)"
proof (cases "find_last (\<lambda>s. analysis_type s = analysis_type b) saved")
  case None
  with assms show ?thesis by (simp add: merge_analysis_def)
next
  case (Some a)
  then have "a \<in> set saved" by (simp add: find_last_SomeD)
  with assms Some show ?thesis
    by (auto simp: merge_analysis_def split: option.splits sum.splits if_splits)
qed

lemma merge_sample_timestamps:
  assumes "merge_sample compare parse (saved, l) sa = Inr (saved', l')"
  shows "\<exists>k. l' = l @ k"
proof (cases "find_last (\<lambda>s. sample_uuid s = sample_uuid sa) saved")
  case None
  with assms show ?thesis by (simp add: merge_sample_def)
next
  case (Some sampleObj)
  with assms obtain as where
    fold: "foldM (merge_analysis compare parse) (analysis sampleObj, l) (analysis sa) = Inr (as, l')"
    by (auto simp: merge_sample_def split: sum.splits)
  have "\<exists>k. snd (as, l') = l @ k"
  proof (rule foldM_invariant [OF fold, where P = "\<lambda>s. \<exists>k. snd s = l @ k"])
    show "\<exists>k. snd (analysis sampleObj, l) = l @ k" by simp
  next
    fix s x s'
    assume "\<exists>k. snd s = l @ k" and "merge_analysis compare parse s x = Inr s'"
    then show "\<exists>k. snd s' = l @ k"
      using merge_analysis_timestamps [of compare parse "fst s" "snd s" x "fst s'" "snd s'"]
      by auto
  qed
  then show ?thesis by simp
qed

lemma merge_specimen_timestamps:
  assumes "merge_specimen compare parse (saved, l) sp = Inr (saved', l')"
  shows "\<exists>k. l' = l @ k"
proof (cases "find_last (\<lambda>s. specimen_uuid s = specimen_uuid sp) saved")
  case None
  with assms show ?thesis by (simp add: merge_specimen_def)
next
  case (Some specObj)
  with assms obtain ss where
    fold: "foldM (merge_sample compare parse) (samples specObj, l) (samples sp) = Inr (ss, l')"
    by (auto simp: merge_specimen_def split: sum.splits)
  have "\<exists>k. snd (ss, l') = l @ k"
  proof (rule foldM_invariant [OF fold, where P = "\<lambda>s. \<exists>k. snd s = l @ k"])
    show "\<exists>k. snd (samples specObj, l) = l @ k" by simp
  next
    fix s x s'
    assume "\<exists>k. snd s = l @ k" and "merge_sample compare parse s x = Inr s'"
    then show "\<exists>k. snd s' = l @ k"
      using merge_sample_timestamps [of compare parse "fst s" "snd s" x "fst s'" "snd s'"]
      by auto
  qed
  then show ?thesis by simp
qed

lemma merge_specimens_timestamps:
  assumes "foldM (merge_specimen compare parse) (saved, l) sps = Inr (saved', l')"
  shows "\<exists>k. l' = l @ k"
proof -
  have "\<exists>k. snd (saved', l') = l @ k"
  proof (rule foldM_invariant [OF assms, where P = "\<lambda>s. \<exists>k. snd s = l @ k"])
    show "\<exists>k. snd (saved, l) = l @ k" by simp
  next
    fix s x s'
    assume "\<exists>k. snd s = l @ k" and "merge_specimen compare parse s x = Inr s'"
    then show "\<exists>k. snd s' = l @ k"
      using merge_specimen_timestamps [of compare parse "fst s" "snd s" x "fst s'" "snd s'"]
      by auto
  qed
  then show ?thesis by simp
qed

lemma merge_inv_step:
  assumes inv: "merge_inv bs st" and step: "merge_bundle compare parse st B = Inr st'"
  shows "merge_inv (bs @ [B]) st'"
proof (cases "donorMapping st (donor_uuid B)")
  case None
  have fb: "first_bundle (donor_uuid B) bs = None"
    using merge_inv_donor_None [OF inv None] .
  then have new: "donor_uuid B \<notin> donor_uuid ` set bs"
    by (simp add: first_bundle_None_iff)
  have st': "st' = \<lparr>donorMapping = (donorMapping st)(donor_uuid B \<mapsto> B),
               uuid_to_timestamp = (uuid_to_timestamp st)(donor_uuid B \<mapsto> [timestamp B]),
               uuid_keys = uuid_keys st @ [donor_uuid B]\<rparr>"
    using step None by (simp add: merge_bundle_def)
  have keys: "distinct (uuid_keys st')" "set (uuid_keys st') = donor_uuid ` set (bs @ [B])"
    using merge_inv_keys [OF inv] new by (auto simp: st')
  have "case first_bundle d (bs @ [B]) of
            None \<Rightarrow> donorMapping st' d = None \<and> uuid_to_timestamp st' d = None
          | Some f \<Rightarrow>
              (\<exists>sp l. donorMapping st' d = Some (f\<lparr>specimen := sp\<rparr>)
                     \<and> uuid_to_timestamp st' d = Some (timestamp f # l))" for d
  proof (cases "d = donor_uuid B")
    case True
    have "donorMapping st' d = Some (B\<lparr>specimen := specimen B\<rparr>)"
      using True by (simp add: st')
    moreover have "uuid_to_timestamp st' d = Some (timestamp B # [])"
      using True by (simp add: st')
    moreover have "first_bundle d (bs @ [B]) = Some B"
      using True fb by (simp add: first_bundle_snoc)
    ultimately have "\<exists>sp l. donorMapping st' d = Some (B\<lparr>specimen := sp\<rparr>)
                     \<and> uuid_to_timestamp st' d = Some (timestamp B # l)"
      by blast
    then show ?thesis
      using \<open>first_bundle d (bs @ [B]) = Some B\<close> by simp
  next
    case False
    have same: "donorMapping st' d = donorMapping st d"
      "uuid_to_timestamp st' d = uuid_to_timestamp st d"
      using False by (simp_all add: st')
    show ?thesis
    proof (cases "first_bundle d bs")
      case None
      then show ?thesis
        using merge_inv_NoneD [OF inv None] False by (simp add: first_bundle_snoc same)
    next
      case (Some f)
      then show ?thesis
        using merge_inv_SomeD [OF inv Some] by (simp add: first_bundle_snoc same)
    qed
  qed
  with keys show ?thesis unfolding merge_inv_def by blast
next
  case (Some donorObj)
  have "first_bundle (donor_uuid B) bs \<noteq> None"
    using merge_inv_NoneD [OF inv, of "donor_uuid B"] Some by auto
  then obtain f where f: "first_bundle (donor_uuid B) bs = Some f" by auto
  then have old: "donor_uuid B \<in> donor_uuid ` set bs"
    using first_bundle_None_iff [of "donor_uuid B" bs] by simp
  obtain sp0 l0 where d0: "donorObj = f\<lparr>specimen := sp0\<rparr>"
    and t0: "uuid_to_timestamp st (donor_uuid B) = Some (timestamp f # l0)"
    using merge_inv_SomeD [OF inv f] Some by auto
  obtain sp tsl where fold: "foldM (merge_specimen compare parse)
      (specimen donorObj, timestamp f # l0) (specimen B) = Inr (sp, tsl)"
    and st': "st' = st\<lparr>donorMapping := (donorMapping st)(donor_uuid B \<mapsto> donorObj\<lparr>specimen := sp\<rparr>),
                       uuid_to_timestamp := (uuid_to_timestamp st)(donor_uuid B \<mapsto> tsl)\<rparr>"
    using step Some t0 by (auto simp: merge_bundle_def split: sum.splits)
  obtain k where k: "tsl = (timestamp f # l0) @ k"
    using merge_specimens_timestamps [OF fold] by blast
  have keys: "distinct (uuid_keys st')" "set (uuid_keys st') = donor_uuid ` set (bs @ [B])"
    using merge_inv_keys [OF inv] old by (auto simp: st')
  have "case first_bundle d (bs @ [B]) of
            None \<Rightarrow> donorMapping st' d = None \<and> uuid_to_timestamp st' d = None
          | Some f \<Rightarrow>
              (\<exists>sp l. donorMapping st' d = Some (f\<lparr>specimen := sp\<rparr>)
                     \<and> uuid_to_timestamp st' d = Some (timestamp f # l))" for d
  proof (cases "d = donor_uuid B")
    case True
    have "donorMapping st' d = Some (f\<lparr>specimen := sp\<rparr>)"
      using True by (simp add: st' d0)
    moreover have "uuid_to_timestamp st' d = Some (timestamp f # (l0 @ k))"
      using True by (simp add: st' k)
    moreover have "first_bundle d (bs @ [B]) = Some f"
      using True f by (simp add: first_bundle_snoc)
    ultimately have "\<exists>sp l. donorMapping st' d = Some (f\<lparr>specimen := sp\<rparr>)
                     \<and> uuid_to_timestamp st' d = Some (timestamp f # l)"
      by blast
    then show ?thesis
      using \<open>first_bundle d (bs @ [B]) = Some f\<close> by simp
  next
    case False
    have same: "donorMapping st' d = donorMapping st d"
      "uuid_to_timestamp st' d = uuid_to_timestamp st d"
      using False by (simp_all add: st')
    show ?thesis
    proof (cases "first_bundle d bs")
      case None
      then show ?thesis
        using merge_inv_NoneD [OF inv None] False by (simp add: first_bundle_snoc same)
    next
      case (Some g)
      then show ?thesis
        using merge_inv_SomeD [OF inv Some] by (simp add: first_bundle_snoc same)
    qed
  qed
  with keys show ?thesis unfolding merge_inv_def by blast
qed

lemma merge_all_inv:
  "merge_all compare parse bs = Inr st \<Longrightarrow> merge_inv bs st"
proof (induction bs arbitrary: st rule: rev_induct)
  case Nil
  then show ?case using merge_inv_empty by (simp add: merge_all_def)
next
  case (snoc B bs)
  from snoc.prems obtain st0 where st0: "merge_all compare parse bs = Inr st0"
    by (auto simp: merge_all_append split: sum.splits)
  with snoc.prems have "merge_bundle compare parse st0 B = Inr st"
    by (simp add: merge_all_snoc)
  with snoc.IH [OF st0] show ?case by (rule merge_inv_step)
qed


section \<open>The final loop over the timestamp lists\<close>

lemma py_max_Max:
  fixes l :: "string list"
  assumes "l \<noteq> []"
  shows "py_max l = Inr (Max (set l))"
proof (cases l)
  case Nil
  with assms show ?thesis by simp
next
  case (Cons x xs)
  have "Max (set (x # xs)) = fold max xs x" by (rule Max.set_eq_fold)
  then show ?thesis using Cons by (simp del: set_simps)
qed

lemma set_timestamps_result:
  assumes "distinct keys"
    and "\<And>i. i \<in> set keys \<Longrightarrow> \<exists>D l. dm i = Some D \<and> tsm i = Some l \<and> l \<noteq> []"
  shows "set_timestamps tsm dm keys =
     Inr (\<lambda>i. if i \<in> set keys
               then map_option (\<lambda>D. D\<lparr>timestamp := Max (set (the (tsm i)))\<rparr>) (dm i)
               else dm i)"
  using assms
proof (induction keys arbitrary: dm)
  case Nil
  then show ?case by simp
next
  case (Cons k keys)
  obtain D l where D: "dm k = Some D" and l: "tsm k = Some l" and ne: "l \<noteq> []"
    using Cons.prems(2) [of k] by auto
  let ?dm = "dm(k \<mapsto> D\<lparr>timestamp := Max (set l)\<rparr>)"
  have k: "k \<notin> set keys" and dist: "distinct keys"
    using Cons.prems(1) by simp_all
  have rest: "\<exists>D l. ?dm i = Some D \<and> tsm i = Some l \<and> l \<noteq> []" if "i \<in> set keys" for i
    using Cons.prems(2) [of i] that by auto
  have "set_timestamps tsm dm (k # keys) = set_timestamps tsm ?dm keys"
    by (simp add: D l py_max_Max [OF ne])
  also have "\<dots> = Inr (\<lambda>i. if i \<in> set keys
               then map_option (\<lambda>D. D\<lparr>timestamp := Max (set (the (tsm i)))\<rparr>) (?dm i)
               else ?dm i)"
    using Cons.IH [OF dist, of ?dm] rest by blast
  also have "(\<lambda>i. if i \<in> set keys
               then map_option (\<lambda>D. D\<lparr>timestamp := Max (set (the (tsm i)))\<rparr>) (?dm i)
               else ?dm i) =
      (\<lambda>i. if i \<in> set (k # keys)
               then map_option (\<lambda>D. D\<lparr>timestamp := Max (set (the (tsm i)))\<rparr>) (dm i)
               else dm i)"
    using k by (auto simp: fun_eq_iff D l)
  finally show ?case .
qed

text \<open>
  If the loop over the bundles ends in the state \<open>st\<close>, \<^verbatim>\<open>mergeDonors\<close> returns, for
  each donor, the donor of \<open>st\<close> with the greatest entry of its timestamp list as
  \<^verbatim>\<open>timestamp\<close>.
\<close>

lemma mergeDonors_result:
  assumes "merge_all compare parse bs = Inr st"
  shows "mergeDonors compare parse bs =
     Inr (\<lambda>d. map_option (\<lambda>D. D\<lparr>timestamp := Max (set (the (uuid_to_timestamp st d)))\<rparr>)
                (donorMapping st d))"
proof -
  have inv: "merge_inv bs st" using assms by (rule merge_all_inv)
  have ok: "\<exists>D l. donorMapping st i = Some D \<and> uuid_to_timestamp st i = Some l \<and> l \<noteq> []"
    if "i \<in> set (uuid_keys st)" for i
  proof -
    from that have "first_bundle i bs \<noteq> None"
      using merge_inv_keys(2) [OF inv] by (simp add: first_bundle_None_iff)
    then obtain f where "first_bundle i bs = Some f" by auto
    from merge_inv_SomeD [OF inv this] show ?thesis by auto
  qed
  have out: "donorMapping st i = None" if "i \<notin> set (uuid_keys st)" for i
  proof -
    from that have "first_bundle i bs = None"
      using merge_inv_keys(2) [OF inv] by (simp add: first_bundle_None_iff)
    from merge_inv_NoneD [OF inv this] show ?thesis by simp
  qed
  have "(\<lambda>i. if i \<in> set (uuid_keys st)
               then map_option (\<lambda>D. D\<lparr>timestamp := Max (set (the (uuid_to_timestamp st i)))\<rparr>)
                      (donorMapping st i)
               else donorMapping st i) =
        (\<lambda>d. map_option (\<lambda>D. D\<lparr>timestamp := Max (set (the (uuid_to_timestamp st d)))\<rparr>)
                (donorMapping st d))"
    using out by (auto simp: fun_eq_iff)
  then show ?thesis
    using set_timestamps_result [OF merge_inv_keys(1) [OF inv], of "donorMapping st"
        "uuid_to_timestamp st"] ok
    by (simp add: mergeDonors_def assms)
qed

lemma merge_all_total:
  assumes "mergeDonors compare parse bs = Inr m"
  shows "\<exists>st. merge_all compare parse bs = Inr st"
  using assms by (cases "merge_all compare parse bs") (simp_all add: mergeDonors_def)


section \<open>Sequences of bundles of different donors\<close>

text \<open>
  A step for a bundle whose donor the state \<open>s1\<close> does not have acts on the other
  part of a joined state.
\<close>

lemma merge_bundle_join:
  assumes "donorMapping s1 (donor_uuid B) = None" and "uuid_to_timestamp s1 (donor_uuid B) = None"
    and "merge_bundle compare parse s2 B = Inr s2'"
  shows "merge_bundle compare parse (join_states s1 s2) B = Inr (join_states s1 s2')"
proof (cases "donorMapping s2 (donor_uuid B)")
  case None
  with assms(3) have s2': "s2' = \<lparr>donorMapping = (donorMapping s2)(donor_uuid B \<mapsto> B),
               uuid_to_timestamp = (uuid_to_timestamp s2)(donor_uuid B \<mapsto> [timestamp B]),
               uuid_keys = uuid_keys s2 @ [donor_uuid B]\<rparr>"
    by (simp add: merge_bundle_def)
  from assms(1) None
  have "donorMapping (join_states s1 s2) (donor_uuid B) = None"
    by (simp add: join_states_def)
  then show ?thesis
    by (simp add: merge_bundle_def) (simp add: join_states_def s2')
next
  case (Some donorObj)
  with assms(3) obtain l sp l' where l: "uuid_to_timestamp s2 (donor_uuid B) = Some l"
    and fold: "foldM (merge_specimen compare parse) (specimen donorObj, l) (specimen B) = Inr (sp, l')"
    and s2': "s2' = s2\<lparr>donorMapping := (donorMapping s2)(donor_uuid B \<mapsto> donorObj\<lparr>specimen := sp\<rparr>),
                       uuid_to_timestamp := (uuid_to_timestamp s2)(donor_uuid B \<mapsto> l')\<rparr>"
    by (auto simp: merge_bundle_def split: option.splits sum.splits)
  from Some l
  have "donorMapping (join_states s1 s2) (donor_uuid B) = Some donorObj"
    and "uuid_to_timestamp (join_states s1 s2) (donor_uuid B) = Some l"
    by (simp_all add: join_states_def)
  then show ?thesis
    using fold by (simp add: merge_bundle_def) (simp add: join_states_def s2')
qed

lemma merge_fold_join:
  assumes "\<forall>B \<in> set ys. donorMapping s1 (donor_uuid B) = None
             \<and> uuid_to_timestamp s1 (donor_uuid B) = None"
    and "merge_all compare parse ys = Inr s2"
  shows "foldM (merge_bundle compare parse) s1 ys = Inr (join_states s1 s2)"
  using assms
proof (induction ys arbitrary: s2 rule: rev_induct)
  case Nil
  then have "s2 = empty_state" by (simp add: merge_all_def)
  then show ?case by (simp add: join_states_def empty_state_def)
next
  case (snoc B ys)
  from snoc.prems(2) obtain s0 where s0: "merge_all compare parse ys = Inr s0"
    by (auto simp: merge_all_append split: sum.splits)
  with snoc.prems(2) have step: "merge_bundle compare parse s0 B = Inr s2"
    by (simp add: merge_all_snoc)
  from snoc.prems(1) have B: "donorMapping s1 (donor_uuid B) = None"
    "uuid_to_timestamp s1 (donor_uuid B) = None"
    and rest: "\<forall>B \<in> set ys. donorMapping s1 (donor_uuid B) = None
             \<and> uuid_to_timestamp s1 (donor_uuid B) = None"
    by simp_all
  from snoc.IH [OF rest s0] merge_bundle_join [OF B step]
  show ?case by (simp add: foldM_append)
qed

text \<open>
  If the donors of \<open>xs\<close> and of \<open>ys\<close> are different and each sequence can be merged,
  the two sequences can be merged in either order, with the same result: the merged
  donors of both.
\<close>

lemma disjoint_sequences_commute:
  assumes "donor_uuid ` set xs \<inter> donor_uuid ` set ys = {}"
    and "mergeDonors compare parse xs = Inr mx" and "mergeDonors compare parse ys = Inr my"
  shows "mergeDonors compare parse (xs @ ys) = Inr (mx ++ my)"
    and "mergeDonors compare parse (ys @ xs) = Inr (mx ++ my)"
proof -
  obtain sx where sx: "merge_all compare parse xs = Inr sx"
    using merge_all_total [OF assms(2)] by blast
  obtain sy where sy: "merge_all compare parse ys = Inr sy"
    using merge_all_total [OF assms(3)] by blast
  note ix = merge_all_inv [OF sx] and iy = merge_all_inv [OF sy]
  have domx: "donorMapping sx d = None \<and> uuid_to_timestamp sx d = None"
    if "d \<notin> donor_uuid ` set xs" for d
    using merge_inv_NoneD [OF ix, of d] that by (simp add: first_bundle_None_iff)
  have domy: "donorMapping sy d = None \<and> uuid_to_timestamp sy d = None"
    if "d \<notin> donor_uuid ` set ys" for d
    using merge_inv_NoneD [OF iy, of d] that by (simp add: first_bundle_None_iff)
  have mx: "mx = (\<lambda>d. map_option (\<lambda>D. D\<lparr>timestamp := Max (set (the (uuid_to_timestamp sx d)))\<rparr>)
                (donorMapping sx d))"
    using assms(2) mergeDonors_result [OF sx] by simp
  have my: "my = (\<lambda>d. map_option (\<lambda>D. D\<lparr>timestamp := Max (set (the (uuid_to_timestamp sy d)))\<rparr>)
                (donorMapping sy d))"
    using assms(3) mergeDonors_result [OF sy] by simp
  have xy: "merge_all compare parse (xs @ ys) = Inr (join_states sx sy)"
  proof -
    have "\<forall>B \<in> set ys. donorMapping sx (donor_uuid B) = None
             \<and> uuid_to_timestamp sx (donor_uuid B) = None"
      using domx assms(1) by blast
    from merge_fold_join [OF this sy] show ?thesis by (simp add: merge_all_append sx)
  qed
  have yx: "merge_all compare parse (ys @ xs) = Inr (join_states sy sx)"
  proof -
    have "\<forall>B \<in> set xs. donorMapping sy (donor_uuid B) = None
             \<and> uuid_to_timestamp sy (donor_uuid B) = None"
      using domy assms(1) by blast
    from merge_fold_join [OF this sx] show ?thesis by (simp add: merge_all_append sy)
  qed
  have either: "d \<notin> donor_uuid ` set xs \<or> d \<notin> donor_uuid ` set ys" for d
    using assms(1) by blast
  show "mergeDonors compare parse (xs @ ys) = Inr (mx ++ my)"
  proof -
    have "(\<lambda>d. map_option (\<lambda>D. D\<lparr>timestamp :=
                 Max (set (the (uuid_to_timestamp (join_states sx sy) d)))\<rparr>)
                (donorMapping (join_states sx sy) d)) = mx ++ my"
    proof
      fix d
      from either [of d] show "map_option (\<lambda>D. D\<lparr>timestamp :=
                 Max (set (the (uuid_to_timestamp (join_states sx sy) d)))\<rparr>)
                (donorMapping (join_states sx sy) d) = (mx ++ my) d"
      proof
        assume "d \<notin> donor_uuid ` set xs"
        from domx [OF this] have "donorMapping sx d = None" "uuid_to_timestamp sx d = None"
          by simp_all
        then show ?thesis
          by (simp add: join_states_def map_add_def mx my split: option.splits)
      next
        assume "d \<notin> donor_uuid ` set ys"
        from domy [OF this] have "donorMapping sy d = None" "uuid_to_timestamp sy d = None"
          by simp_all
        then show ?thesis
          by (simp add: join_states_def map_add_def mx my split: option.splits)
      qed
    qed
    with mergeDonors_result [OF xy] show ?thesis by simp
  qed
  show "mergeDonors compare parse (ys @ xs) = Inr (mx ++ my)"
  proof -
    have "(\<lambda>d. map_option (\<lambda>D. D\<lparr>timestamp :=
                 Max (set (the (uuid_to_timestamp (join_states sy sx) d)))\<rparr>)
                (donorMapping (join_states sy sx) d)) = mx ++ my"
    proof
      fix d
      from either [of d] show "map_option (\<lambda>D. D\<lparr>timestamp :=
                 Max (set (the (uuid_to_timestamp (join_states sy sx) d)))\<rparr>)
                (donorMapping (join_states sy sx) d) = (mx ++ my) d"
      proof
        assume "d \<notin> donor_uuid ` set xs"
        from domx [OF this] have "donorMapping sx d = None" "uuid_to_timestamp sx d = None"
          by simp_all
        then show ?thesis
          by (simp add: join_states_def map_add_def mx my split: option.splits)
      next
        assume "d \<notin> donor_uuid ` set ys"
        from domy [OF this] have "donorMapping sy d = None" "uuid_to_timestamp sy d = None"
          by simp_all
        then show ?thesis
          by (simp add: join_states_def map_add_def mx my split: option.splits)
      qed
    qed
    with mergeDonors_result [OF yx] show ?thesis by simp
  qed
qed


section \<open>The donor's timestamp\<close>

text \<open>
  A loop body that appends to the timestamp list what \<open>ev\<close> says, whatever the list
  is: the loop appends the trace.
\<close>

lemma foldM_trace:
  assumes "foldM f (s, l) xs = Inr (s', l')"
    and "\<And>s l x s' l' k. f (s, l) x = Inr (s', l') \<Longrightarrow> f (s, k) x = Inr (s', k @ ev s x)"
  shows "foldM f (s, k) xs = Inr (s', k @ trace ev (after f) s xs)"
  using assms(1)
proof (induction xs arbitrary: s l k)
  case Nil
  then show ?case by simp
next
  case (Cons x xs)
  from Cons.prems obtain s1 l1 where first: "f (s, l) x = Inr (s1, l1)"
    and rest: "foldM f (s1, l1) xs = Inr (s', l')"
    by (auto split: sum.splits)
  have fk: "f (s, k) x = Inr (s1, k @ ev s x)" for k
    using assms(2) [OF first] .
  have nxt: "after f s x = s1"
    using fk [of "[]"] by (simp add: after_def)
  show ?case
    using Cons.IH [OF rest, of "k @ ev s x"] by (simp add: fk nxt)
qed

lemma foldM_trace_list:
  assumes "foldM f (s, l) xs = Inr (s', l')"
    and "\<And>s l x s' l' k. f (s, l) x = Inr (s', l') \<Longrightarrow> f (s, k) x = Inr (s', k @ ev s x)"
  shows "l' = l @ trace ev (after f) s xs"
  using foldM_trace [OF assms(1), of ev l] assms by simp

text \<open>The analysis step records the timestamp of the entry exactly if it accepts it.\<close>

lemma merge_analysis_event:
  assumes "merge_analysis compare parse (saved, l) bundle = Inr (saved', l')"
  shows "merge_analysis compare parse (saved, k) bundle =
           Inr (saved', k @ (if accepted compare parse saved bundle then stamp bundle else []))"
proof (cases "find_last (\<lambda>s. analysis_type s = analysis_type bundle) saved")
  case None
  with assms show ?thesis
    by (auto simp: merge_analysis_def accepted_def stamp_def record_timestamp_def
        split: option.splits)
next
  case (Some analysisObj)
  with assms show ?thesis
    by (auto simp: merge_analysis_def accepted_def wins_def stamp_def record_timestamp_def
        split: option.splits sum.splits if_splits)
qed

text \<open>An entry that is accepted is at the end of the sample's list afterwards.\<close>

lemma merge_analysis_accepted:
  assumes "merge_analysis compare parse (saved, l) bundle = Inr (saved', l')"
  shows "saved' =
     (if accepted compare parse saved bundle
      then (case find_last (\<lambda>s. analysis_type s = analysis_type bundle) saved of
              None \<Rightarrow> saved @ [bundle]
            | Some analysisObj \<Rightarrow> remove1 analysisObj saved @ [bundle])
      else saved)"
proof (cases "find_last (\<lambda>s. analysis_type s = analysis_type bundle) saved")
  case None
  with assms show ?thesis
    by (auto simp: merge_analysis_def accepted_def)
next
  case (Some analysisObj)
  with assms show ?thesis
    by (auto simp: merge_analysis_def accepted_def wins_def
        split: option.splits sum.splits if_splits)
qed

lemma merge_sample_event:
  assumes "merge_sample compare parse (saved, l) sample = Inr (saved', l')"
  shows "merge_sample compare parse (saved, k) sample =
           Inr (saved', k @ (case find_last (\<lambda>s. sample_uuid s = sample_uuid sample) saved of
                               None \<Rightarrow> []
                             | Some sampleObj \<Rightarrow>
                                 recorded_in_sample compare parse (analysis sampleObj)
                                   (analysis sample)))"
proof (cases "find_last (\<lambda>s. sample_uuid s = sample_uuid sample) saved")
  case None
  with assms show ?thesis by (simp add: merge_sample_def)
next
  case (Some sampleObj)
  with assms obtain as where
    fold: "foldM (merge_analysis compare parse) (analysis sampleObj, l) (analysis sample)
             = Inr (as, l')"
    and saved': "saved' = replace_last (\<lambda>s. sample_uuid s = sample_uuid sample)
                            (sampleObj\<lparr>analysis := as\<rparr>) saved"
    by (auto simp: merge_sample_def split: sum.splits)
  have "foldM (merge_analysis compare parse) (analysis sampleObj, k) (analysis sample)
          = Inr (as, k @ recorded_in_sample compare parse (analysis sampleObj) (analysis sample))"
    unfolding recorded_in_sample_def
    by (rule foldM_trace [OF fold]) (rule merge_analysis_event)
  then show ?thesis
    by (simp add: merge_sample_def Some saved')
qed

lemma merge_specimen_event:
  assumes "merge_specimen compare parse (saved, l) specimen' = Inr (saved', l')"
  shows "merge_specimen compare parse (saved, k) specimen' =
           Inr (saved',
                k @ (case find_last (\<lambda>s. specimen_uuid s = specimen_uuid specimen') saved of
                       None \<Rightarrow> []
                     | Some specObj \<Rightarrow>
                         recorded_in_specimen compare parse (samples specObj)
                           (samples specimen')))"
proof (cases "find_last (\<lambda>s. specimen_uuid s = specimen_uuid specimen') saved")
  case None
  with assms show ?thesis by (simp add: merge_specimen_def)
next
  case (Some specObj)
  with assms obtain ss where
    fold: "foldM (merge_sample compare parse) (samples specObj, l) (samples specimen')
             = Inr (ss, l')"
    and saved': "saved' = replace_last (\<lambda>s. specimen_uuid s = specimen_uuid specimen')
                            (specObj\<lparr>samples := ss\<rparr>) saved"
    by (auto simp: merge_specimen_def split: sum.splits)
  have "foldM (merge_sample compare parse) (samples specObj, k) (samples specimen')
          = Inr (ss, k @ recorded_in_specimen compare parse (samples specObj) (samples specimen'))"
    unfolding recorded_in_specimen_def
    by (rule foldM_trace [OF fold]) (rule merge_sample_event)
  then show ?thesis
    by (simp add: merge_specimen_def Some saved')
qed

text \<open>
  A later bundle of a donor appends to the donor's list what its specimens record,
  and leaves the lists of the other donors as they are.
\<close>

lemma merge_bundle_later_event:
  assumes "merge_bundle compare parse st metaObj = Inr st'"
    and "donorMapping st (donor_uuid metaObj) = Some donorObj"
    and "uuid_to_timestamp st (donor_uuid metaObj) = Some l"
  shows "uuid_to_timestamp st' (donor_uuid metaObj) =
           Some (l @ recorded_in_donor compare parse (specimen donorObj) (specimen metaObj))"
    and "donorMapping st' (donor_uuid metaObj) \<noteq> None"
proof -
  from assms obtain sp l' where
    fold: "foldM (merge_specimen compare parse) (specimen donorObj, l) (specimen metaObj)
             = Inr (sp, l')"
    and st': "st' = st\<lparr>donorMapping :=
                        (donorMapping st)(donor_uuid metaObj \<mapsto> donorObj\<lparr>specimen := sp\<rparr>),
                      uuid_to_timestamp := (uuid_to_timestamp st)(donor_uuid metaObj \<mapsto> l')\<rparr>"
    by (auto simp: merge_bundle_def split: sum.splits)
  have "l' = l @ recorded_in_donor compare parse (specimen donorObj) (specimen metaObj)"
    unfolding recorded_in_donor_def
    by (rule foldM_trace_list [OF fold]) (rule merge_specimen_event)
  then show "uuid_to_timestamp st' (donor_uuid metaObj) =
           Some (l @ recorded_in_donor compare parse (specimen donorObj) (specimen metaObj))"
    by (simp add: st')
  show "donorMapping st' (donor_uuid metaObj) \<noteq> None"
    by (simp add: st')
qed

lemma merge_bundle_frame:
  assumes "merge_bundle compare parse st metaObj = Inr st'" and "donor_uuid metaObj \<noteq> d"
  shows "donorMapping st' d = donorMapping st d"
    and "uuid_to_timestamp st' d = uuid_to_timestamp st d"
  using assms
  by (auto simp: merge_bundle_def split: option.splits sum.splits)

lemma merge_bundle_first_event:
  assumes "merge_bundle compare parse st metaObj = Inr st'"
    and "donorMapping st (donor_uuid metaObj) = None"
  shows "uuid_to_timestamp st' (donor_uuid metaObj) = Some [timestamp metaObj]"
    and "donorMapping st' (donor_uuid metaObj) \<noteq> None"
  using assms by (auto simp: merge_bundle_def)

text \<open>The list of a donor that is in the mapping, after more bundles.\<close>

lemma merge_fold_recorded:
  assumes "foldM (merge_bundle compare parse) st bs = Inr st'"
    and "donorMapping st d \<noteq> None" and "uuid_to_timestamp st d = Some l"
  shows "uuid_to_timestamp st' d = Some (l @ recorded compare parse st bs d)"
  using assms
proof (induction bs arbitrary: st l)
  case Nil
  then show ?case by (simp add: recorded_def)
next
  case (Cons B bs)
  from Cons.prems(1) obtain st1 where step: "merge_bundle compare parse st B = Inr st1"
    and rest: "foldM (merge_bundle compare parse) st1 bs = Inr st'"
    by (auto split: sum.splits)
  have nxt: "after_bundle compare parse st B = st1"
    by (simp add: after_bundle_def step)
  show ?case
  proof (cases "donor_uuid B = d")
    case True
    from Cons.prems(2) True obtain donorObj where D: "donorMapping st (donor_uuid B) = Some donorObj"
      by auto
    have l: "uuid_to_timestamp st (donor_uuid B) = Some l"
      using Cons.prems(3) True by simp
    note ev = merge_bundle_later_event [OF step D l]
    have "uuid_to_timestamp st' d =
        Some ((l @ recorded_in_donor compare parse (specimen donorObj) (specimen B))
              @ recorded compare parse st1 bs d)"
      using Cons.IH [OF rest] ev True by simp
    then show ?thesis
      using True D by (simp add: recorded_def nxt)
  next
    case False
    note fr = merge_bundle_frame [OF step False]
    have "uuid_to_timestamp st' d = Some (l @ recorded compare parse st1 bs d)"
      using Cons.IH [OF rest] fr Cons.prems(2,3) by simp
    then show ?thesis
      using False by (simp add: recorded_def nxt)
  qed
qed

text \<open>The list of a donor that is not yet in the mapping, after more bundles.\<close>

lemma merge_fold_history:
  assumes "foldM (merge_bundle compare parse) st bs = Inr st'"
    and "donorMapping st d = None" and "first_bundle d bs = Some f"
  shows "uuid_to_timestamp st' d = Some (timestamp f # recorded compare parse st bs d)"
  using assms
proof (induction bs arbitrary: st)
  case Nil
  then show ?case by (simp add: first_bundle_def)
next
  case (Cons B bs)
  from Cons.prems(1) obtain st1 where step: "merge_bundle compare parse st B = Inr st1"
    and rest: "foldM (merge_bundle compare parse) st1 bs = Inr st'"
    by (auto split: sum.splits)
  have nxt: "after_bundle compare parse st B = st1"
    by (simp add: after_bundle_def step)
  show ?case
  proof (cases "donor_uuid B = d")
    case True
    then have f: "f = B" using Cons.prems(3) by (simp add: first_bundle_def)
    have none: "donorMapping st (donor_uuid B) = None"
      using Cons.prems(2) True by simp
    note ev = merge_bundle_first_event [OF step none]
    have "uuid_to_timestamp st' d = Some ([timestamp B] @ recorded compare parse st1 bs d)"
      using merge_fold_recorded [OF rest, of d "[timestamp B]"] ev True by simp
    then show ?thesis
      using True Cons.prems(2) by (simp add: recorded_def nxt f)
  next
    case False
    note fr = merge_bundle_frame [OF step False]
    have fb: "first_bundle d bs = Some f"
      using Cons.prems(3) False by (simp add: first_bundle_def)
    have "uuid_to_timestamp st' d = Some (timestamp f # recorded compare parse st1 bs d)"
      using Cons.IH [OF rest _ fb] fr Cons.prems(2) by simp
    then show ?thesis
      using False by (simp add: recorded_def nxt)
  qed
qed

text \<open>
  Claim C5, as the code has it. If the merge returns, the timestamp list of a donor
  is the \<^verbatim>\<open>timestamp\<close> of the donor's first bundle, followed by the timestamps of the
  entries that the analysis step has accepted for the donor, in the order of
  acceptance; an entry that is accepted is put at the end of the sample's list, as a
  new analysis type or in the place of the saved entry of its type, and any other
  entry leaves the list as it is; and the merged donor's \<^verbatim>\<open>timestamp\<close> is the
  greatest string of the donor's list. So the first bundle's timestamp takes part in
  the maximum.
\<close>

theorem donor_timestamp_rollup:
  assumes "merge_all compare parse bs = Inr st" and "first_bundle d bs = Some f"
  shows "uuid_to_timestamp st d = Some (timestamp f # recorded compare parse empty_state bs d)
       \<and> map_option timestamp (lookup_donor (mergeDonors compare parse bs) d)
           = Some (Max (set (timestamp f # recorded compare parse empty_state bs d)))
       \<and> (\<forall>saved l bundle saved' l'.
             merge_analysis compare parse (saved, l) bundle = Inr (saved', l') \<longrightarrow>
               l' = l @ (if accepted compare parse saved bundle then stamp bundle else [])
             \<and> saved' =
                 (if accepted compare parse saved bundle
                  then (case find_last (\<lambda>s. analysis_type s = analysis_type bundle) saved of
                          None \<Rightarrow> saved @ [bundle]
                        | Some analysisObj \<Rightarrow> remove1 analysisObj saved @ [bundle])
                  else saved))"
proof (intro conjI allI impI)
  have inv: "merge_inv bs st" using assms(1) by (rule merge_all_inv)
  obtain sp l where D: "donorMapping st d = Some (f\<lparr>specimen := sp\<rparr>)"
    using merge_inv_SomeD [OF inv assms(2)] by blast
  have "foldM (merge_bundle compare parse) empty_state bs = Inr st"
    using assms(1) by (simp add: merge_all_def)
  from merge_fold_history [OF this _ assms(2)]
  show l: "uuid_to_timestamp st d = Some (timestamp f # recorded compare parse empty_state bs d)"
    by (simp add: empty_state_def)
  show "map_option timestamp (lookup_donor (mergeDonors compare parse bs) d)
          = Some (Max (set (timestamp f # recorded compare parse empty_state bs d)))"
    by (simp add: mergeDonors_result [OF assms(1)] lookup_donor_def D l del: set_simps)
next
  fix saved l b saved' l'
  assume step: "merge_analysis compare parse (saved, l) b = Inr (saved', l')"
  from merge_analysis_event [OF step, of l] step
  show "l' = l @ (if accepted compare parse saved b then stamp b else [])"
    by simp
  from merge_analysis_accepted [OF step]
  show "saved' =
                 (if accepted compare parse saved b
                  then (case find_last (\<lambda>s. analysis_type s = analysis_type b) saved of
                          None \<Rightarrow> saved @ [b]
                        | Some analysisObj \<Rightarrow> remove1 analysisObj saved @ [b])
                  else saved)" .
qed

text \<open>
  Instance: after the first bundle of December 2016, the entries of January and
  February are accepted as new analysis types and the entry of April as a newer
  version; the entry of May has an older version and is discarded. The list is
  December, January, February, April, and the donor is stamped April.
\<close>

lemma rollup_bundles_merge:
  "(case merge_all semver_plain dateutil_parser rollup_bundles of
      Inl e \<Rightarrow> False | Inr st \<Rightarrow> True)"
  by code_simp

lemma rollup_bundles_recorded:
  "recorded semver_plain dateutil_parser empty_state rollup_bundles ''d1'' =
     [''2017-01-01T00:00:00'', ''2017-02-01T00:00:00'', ''2017-04-01T00:00:00'']"
  by code_simp

lemma rollup_bundles_max:
  "Max (set [''2016-12-01T00:00:00'', ''2017-01-01T00:00:00'', ''2017-02-01T00:00:00'',
             ''2017-04-01T00:00:00'' :: string]) = ''2017-04-01T00:00:00''"
proof -
  have "Max (set [''2016-12-01T00:00:00'', ''2017-01-01T00:00:00'', ''2017-02-01T00:00:00'',
             ''2017-04-01T00:00:00'' :: string]) =
      fold max [''2017-01-01T00:00:00'', ''2017-02-01T00:00:00'', ''2017-04-01T00:00:00'']
        ''2016-12-01T00:00:00''"
    by (rule Max.set_eq_fold)
  also have "\<dots> = ''2017-04-01T00:00:00''" by code_simp
  finally show ?thesis .
qed

theorem donor_timestamp_rollup_witness:
  "map_option timestamp
     (lookup_donor (mergeDonors semver_plain dateutil_parser rollup_bundles) ''d1'')
   = Some ''2017-04-01T00:00:00''
   \<and> (\<exists>st. merge_all semver_plain dateutil_parser rollup_bundles = Inr st
          \<and> uuid_to_timestamp st ''d1'' =
              Some [''2016-12-01T00:00:00'', ''2017-01-01T00:00:00'', ''2017-02-01T00:00:00'',
                    ''2017-04-01T00:00:00''])"
proof -
  obtain st where st: "merge_all semver_plain dateutil_parser rollup_bundles = Inr st"
    using rollup_bundles_merge
    by (cases "merge_all semver_plain dateutil_parser rollup_bundles") simp_all
  have fb: "first_bundle ''d1'' rollup_bundles = Some bundle_dec"
    by (simp add: first_bundle_def rollup_bundles_def bundle_dec_def path_bundle_def)
  have ts: "timestamp bundle_dec = ''2016-12-01T00:00:00''"
    by (simp add: bundle_dec_def path_bundle_def)
  from donor_timestamp_rollup [OF st fb]
  have "uuid_to_timestamp st ''d1'' =
          Some [''2016-12-01T00:00:00'', ''2017-01-01T00:00:00'', ''2017-02-01T00:00:00'',
                ''2017-04-01T00:00:00'']"
    and "map_option timestamp
           (lookup_donor (mergeDonors semver_plain dateutil_parser rollup_bundles) ''d1'')
         = Some ''2017-04-01T00:00:00''"
    unfolding ts rollup_bundles_recorded rollup_bundles_max by blast+
  with st show ?thesis by blast
qed

text \<open>
  The claim's last sentence fails: the entries accepted carry the timestamps of
  January, February and March, whose maximum is March, and the donor is stamped
  June, the timestamp of its first bundle.
\<close>

theorem rollup_counterexample:
  "map_option timestamp
     (lookup_donor (mergeDonors semver_plain dateutil_parser
        [bundle_june, bundle_jan, bundle_feb, bundle_mar]) ''d1'')
   = Some ''2017-06-01T00:00:00''
   \<and> map_option all_analysis
     (lookup_donor (mergeDonors semver_plain dateutil_parser
        [bundle_june, bundle_jan, bundle_feb, bundle_mar]) ''d1'')
   = Some [entry ''rnaseq'' ''1.0.0'' ''alignment'' None,
           entry ''varcall'' ''1.0.0'' ''variants'' (Some ''2017-01-01T00:00:00''),
           entry ''fusion'' ''1.0.0'' ''fusions'' (Some ''2017-02-01T00:00:00''),
           entry ''qc'' ''1.0.0'' ''qc_report'' (Some ''2017-03-01T00:00:00'')]
   \<and> py_max [''2017-01-01T00:00:00'', ''2017-02-01T00:00:00'', ''2017-03-01T00:00:00'']
     = Inr ''2017-03-01T00:00:00''"
  by code_simp

text \<open>
  An entry that arrives in a sample that is new to the specimen is in the merged
  donor, and its timestamp is not in the donor's list: the analysis step has not
  seen it.
\<close>

lemma new_sample_not_recorded:
  "map_option timestamp
     (lookup_donor (mergeDonors semver_plain dateutil_parser [bundle_dec, bundle_2019]) ''d1'')
   = Some ''2016-12-01T00:00:00''
   \<and> map_option all_analysis
     (lookup_donor (mergeDonors semver_plain dateutil_parser [bundle_dec, bundle_2019]) ''d1'')
   = Some [entry ''rnaseq'' ''1.0.0'' ''alignment'' None,
           entry ''varcall'' ''1.0.0'' ''variants'' (Some ''2019-01-01T00:00:00'')]
   \<and> recorded semver_plain dateutil_parser empty_state [bundle_dec, bundle_2019] ''d1'' = []"
  by code_simp


section \<open>Donor-level fields\<close>

lemma merge_bundle_later:
  assumes "donorMapping st (donor_uuid B) \<noteq> None"
    and "donor_uuid B' = donor_uuid B" and "specimen B' = specimen B"
  shows "merge_bundle compare parse st B' = merge_bundle compare parse st B"
proof -
  from assms(1) obtain donorObj where "donorMapping st (donor_uuid B) = Some donorObj"
    by auto
  then show ?thesis
    unfolding merge_bundle_def assms(2) assms(3) by simp
qed

lemma merge_all_later:
  assumes "donor_uuid B \<in> donor_uuid ` set pre"
    and "donor_uuid B' = donor_uuid B" and "specimen B' = specimen B"
  shows "merge_all compare parse (pre @ B' # rest) = merge_all compare parse (pre @ B # rest)"
proof (cases "merge_all compare parse pre")
  case (Inl e)
  then show ?thesis by (simp add: merge_all_append)
next
  case (Inr st)
  have "first_bundle (donor_uuid B) pre \<noteq> None"
    using assms(1) by (simp add: first_bundle_None_iff)
  then obtain f where "first_bundle (donor_uuid B) pre = Some f" by auto
  from merge_inv_SomeD [OF merge_all_inv [OF Inr] this]
  have "donorMapping st (donor_uuid B) \<noteq> None" by auto
  from merge_bundle_later [OF this assms(2,3)] show ?thesis
    by (simp add: merge_all_append Inr)
qed

text \<open>
  Claim C10. In the mapping that \<^verbatim>\<open>mergeDonors\<close> returns, a donor that no bundle names
  is absent, and the entry of any other donor is its first bundle in the input with
  new values for \<^verbatim>\<open>timestamp\<close> and \<^verbatim>\<open>specimen\<close> only. A later bundle of a donor
  contributes its \<^verbatim>\<open>donor_uuid\<close> and its \<^verbatim>\<open>specimen\<close> list and nothing else: changing
  its other fields changes nothing in the result.
\<close>

theorem donor_fields_from_first_bundle:
  "(mergeDonors compare parse bs = Inr m \<longrightarrow>
      (case first_bundle d bs of
         None \<Rightarrow> m d = None
       | Some f \<Rightarrow> (\<exists>t sp. m d = Some (f\<lparr>timestamp := t, specimen := sp\<rparr>))))
   \<and> (donor_uuid B \<in> donor_uuid ` set pre \<and> donor_uuid B' = donor_uuid B
        \<and> specimen B' = specimen B \<longrightarrow>
      mergeDonors compare parse (pre @ B' # rest) = mergeDonors compare parse (pre @ B # rest))"
proof (intro conjI impI)
  assume m: "mergeDonors compare parse bs = Inr m"
  then obtain st where st: "merge_all compare parse bs = Inr st"
    using merge_all_total by blast
  have inv: "merge_inv bs st" using st by (rule merge_all_inv)
  have md: "m d = map_option (\<lambda>D. D\<lparr>timestamp := Max (set (the (uuid_to_timestamp st d)))\<rparr>)
                (donorMapping st d)"
    using m mergeDonors_result [OF st] by auto
  show "case first_bundle d bs of
         None \<Rightarrow> m d = None
       | Some f \<Rightarrow> (\<exists>t sp. m d = Some (f\<lparr>timestamp := t, specimen := sp\<rparr>))"
  proof (cases "first_bundle d bs")
    case None
    from merge_inv_NoneD [OF inv None] show ?thesis by (simp add: None md)
  next
    case (Some f)
    from merge_inv_SomeD [OF inv Some] obtain sp l
      where "donorMapping st d = Some (f\<lparr>specimen := sp\<rparr>)"
        and "uuid_to_timestamp st d = Some (timestamp f # l)" by blast
    then have "m d = Some (f\<lparr>timestamp := Max (set (timestamp f # l)), specimen := sp\<rparr>)"
      by (simp add: md del: set_simps)
    then show ?thesis unfolding Some by (simp del: set_simps) blast
  qed
next
  assume "donor_uuid B \<in> donor_uuid ` set pre \<and> donor_uuid B' = donor_uuid B
        \<and> specimen B' = specimen B"
  then have "merge_all compare parse (pre @ B' # rest) = merge_all compare parse (pre @ B # rest)"
    using merge_all_later by blast
  then show "mergeDonors compare parse (pre @ B' # rest) = mergeDonors compare parse (pre @ B # rest)"
    by (simp add: mergeDonors_def)
qed

lemma state_after_v1_v2:
  "\<exists>st. merge_all semver_plain dateutil_parser ([bundle_v1] @ [bundle_v2]) = Inr st"
  by (simp add: merge_all_def merge_bundle_def empty_state_def merge_specimen_def
      merge_sample_def merge_analysis_def find_last_def record_timestamp_def
      bundle_v1_def bundle_v2_def path_bundle_def entry_def semver_plain_1_2)

text \<open>
  Instance: the donor after the bundles \<^verbatim>\<open>1.0.0\<close> and \<^verbatim>\<open>2.0.0\<close> is the first of
  them, but for its \<^verbatim>\<open>specimen\<close> list; and the second bundle may carry any
  donor-level fields.
\<close>

theorem donor_fields_from_first_bundle_witness:
  "(\<exists>t sp. lookup_donor (mergeDonors semver_plain dateutil_parser [bundle_v1, bundle_v2]) ''d1''
             = Some (bundle_v1\<lparr>timestamp := t, specimen := sp\<rparr>))
   \<and> mergeDonors semver_plain dateutil_parser ([bundle_v1] @ bundle_v2_other_fields # []) =
     mergeDonors semver_plain dateutil_parser ([bundle_v1] @ bundle_v2 # [])"
proof -
  have fb: "first_bundle ''d1'' [bundle_v1, bundle_v2] = Some bundle_v1"
    by (simp add: first_bundle_def bundle_v1_def path_bundle_def)
  obtain m where m: "mergeDonors semver_plain dateutil_parser [bundle_v1, bundle_v2] = Inr m"
    using mergeDonors_result [of semver_plain dateutil_parser "[bundle_v1] @ [bundle_v2]"]
      state_after_v1_v2 by auto
  have later: "donor_uuid bundle_v2 \<in> donor_uuid ` set [bundle_v1]
      \<and> donor_uuid bundle_v2_other_fields = donor_uuid bundle_v2
      \<and> specimen bundle_v2_other_fields = specimen bundle_v2"
    by (simp add: bundle_v1_def bundle_v2_def bundle_v2_other_fields_def path_bundle_def)
  from donor_fields_from_first_bundle [of semver_plain dateutil_parser "[bundle_v1, bundle_v2]" m
      "''d1''" bundle_v2 "[bundle_v1]" bundle_v2_other_fields "[]"]
  show ?thesis
    using m fb later by (simp add: lookup_donor_def)
qed


section \<open>One entry for each analysis type\<close>

lemma distinct_map_remove1:
  assumes "distinct (map f xs)" and "a \<in> set xs"
  shows "distinct (map f (remove1 a xs)) \<and> f a \<notin> f ` set (remove1 a xs)"
  using assms
proof (induction xs)
  case Nil
  then show ?case by simp
next
  case (Cons x xs)
  show ?case
  proof (cases "a = x")
    case True
    with Cons.prems show ?thesis by auto
  next
    case False
    with Cons.prems have a: "a \<in> set xs" and d: "distinct (map f xs)" by auto
    note IH = Cons.IH [OF d a]
    have sub: "set (remove1 a xs) \<subseteq> set xs" by (rule set_remove1_subset)
    have x: "f x \<notin> f ` set xs" using Cons.prems(1) by simp
    then have "f x \<notin> f ` set (remove1 a xs)" using sub by blast
    moreover have "f a \<noteq> f x" using x a by (metis imageI)
    ultimately show ?thesis using IH False by simp
  qed
qed

lemma list_all_replace_last:
  "list_all Q xs \<Longrightarrow> Q y \<Longrightarrow> list_all Q (replace_last P y xs)"
  using set_replace_last [of P y xs] by (auto simp: list_all_iff)

lemma merge_analysis_distinct:
  assumes "merge_analysis compare parse (saved, l) b = Inr (saved', l')"
    and "distinct (map analysis_type saved)"
  shows "distinct (map analysis_type saved')"
proof (cases "find_last (\<lambda>s. analysis_type s = analysis_type b) saved")
  case None
  then have "analysis_type b \<notin> analysis_type ` set saved"
    by (auto simp: find_last_None_iff)
  with assms None show ?thesis by (auto simp: merge_analysis_def)
next
  case (Some a)
  then have a: "a \<in> set saved" and ty: "analysis_type a = analysis_type b"
    using find_last_SomeD [OF Some] by simp_all
  have repl: "distinct (map analysis_type (remove1 a saved @ [b]))"
    using distinct_map_remove1 [OF assms(2) a] ty by simp
  from merge_analysis_accepts [OF assms(1)] have
    "saved' = saved \<or> saved' = saved @ [b] \<or> (\<exists>a \<in> set saved. saved' = remove1 a saved @ [b])"
    by blast
  moreover have "saved' \<noteq> saved @ [b] \<or> saved' = remove1 a saved @ [b]"
    using assms(1) Some
    by (auto simp: merge_analysis_def split: option.splits sum.splits if_splits)
  moreover have "saved' = saved \<or> saved' = remove1 a saved @ [b]"
    using assms(1) Some
    by (auto simp: merge_analysis_def split: option.splits sum.splits if_splits)
  ultimately show ?thesis using repl assms(2) by auto
qed

lemma merge_analyses_distinct:
  assumes "foldM (merge_analysis compare parse) (saved, l) bs = Inr (saved', l')"
    and "distinct (map analysis_type saved)"
  shows "distinct (map analysis_type saved')"
proof -
  have "distinct (map analysis_type (fst (saved', l')))"
  proof (rule foldM_invariant [OF assms(1), where P = "\<lambda>s. distinct (map analysis_type (fst s))"])
    show "distinct (map analysis_type (fst (saved, l)))" using assms(2) by simp
  next
    fix s x s'
    assume "distinct (map analysis_type (fst s))"
      and "merge_analysis compare parse s x = Inr s'"
    then show "distinct (map analysis_type (fst s'))"
      using merge_analysis_distinct [of compare parse "fst s" "snd s" x "fst s'" "snd s'"]
      by simp
  qed
  then show ?thesis by simp
qed

lemma merge_sample_wf:
  assumes "merge_sample compare parse (saved, l) sa = Inr (saved', l')"
    and "distinct (map sample_uuid saved)" and "list_all wf_sample saved"
    and "wf_sample sa"
  shows "distinct (map sample_uuid saved') \<and> list_all wf_sample saved'"
proof (cases "find_last (\<lambda>s. sample_uuid s = sample_uuid sa) saved")
  case None
  then have "sample_uuid sa \<notin> sample_uuid ` set saved"
    by (auto simp: find_last_None_iff)
  with assms None show ?thesis by (auto simp: merge_sample_def)
next
  case (Some sampleObj)
  then have mem: "sampleObj \<in> set saved" and key: "sample_uuid sampleObj = sample_uuid sa"
    using find_last_SomeD [OF Some] by simp_all
  from assms(1) Some obtain as where
    fold: "foldM (merge_analysis compare parse) (analysis sampleObj, l) (analysis sa) = Inr (as, l')"
    and saved': "saved' = replace_last (\<lambda>s. sample_uuid s = sample_uuid sa)
                            (sampleObj\<lparr>analysis := as\<rparr>) saved"
    by (auto simp: merge_sample_def split: sum.splits)
  have "wf_sample sampleObj" using assms(3) mem by (simp add: list_all_iff)
  then have "wf_sample (sampleObj\<lparr>analysis := as\<rparr>)"
    using merge_analyses_distinct [OF fold] by (simp add: wf_sample_def)
  then have "list_all wf_sample saved'"
    unfolding saved' using assms(3) by (simp add: list_all_replace_last)
  moreover have "map sample_uuid saved' = map sample_uuid saved"
    unfolding saved' by (rule map_replace_last) (simp add: key)
  ultimately show ?thesis using assms(2) by simp
qed

lemma merge_samples_wf:
  assumes "foldM (merge_sample compare parse) (saved, l) sas = Inr (saved', l')"
    and "distinct (map sample_uuid saved)" and "list_all wf_sample saved"
    and "list_all wf_sample sas"
  shows "distinct (map sample_uuid saved') \<and> list_all wf_sample saved'"
proof -
  have "distinct (map sample_uuid (fst (saved', l'))) \<and> list_all wf_sample (fst (saved', l'))"
  proof (rule foldM_invariant [OF assms(1),
        where P = "\<lambda>s. distinct (map sample_uuid (fst s)) \<and> list_all wf_sample (fst s)"])
    show "distinct (map sample_uuid (fst (saved, l))) \<and> list_all wf_sample (fst (saved, l))"
      using assms(2,3) by simp
  next
    fix s x s'
    assume "x \<in> set sas"
      and "distinct (map sample_uuid (fst s)) \<and> list_all wf_sample (fst s)"
      and "merge_sample compare parse s x = Inr s'"
    then show "distinct (map sample_uuid (fst s')) \<and> list_all wf_sample (fst s')"
      using merge_sample_wf [of compare parse "fst s" "snd s" x "fst s'" "snd s'"] assms(4)
      by (simp add: list_all_iff)
  qed
  then show ?thesis by simp
qed

lemma merge_specimen_wf:
  assumes "merge_specimen compare parse (saved, l) sp = Inr (saved', l')"
    and "distinct (map specimen_uuid saved)" and "list_all wf_specimen saved"
    and "wf_specimen sp"
  shows "distinct (map specimen_uuid saved') \<and> list_all wf_specimen saved'"
proof (cases "find_last (\<lambda>s. specimen_uuid s = specimen_uuid sp) saved")
  case None
  then have "specimen_uuid sp \<notin> specimen_uuid ` set saved"
    by (auto simp: find_last_None_iff)
  with assms None show ?thesis by (auto simp: merge_specimen_def)
next
  case (Some specObj)
  then have mem: "specObj \<in> set saved" and key: "specimen_uuid specObj = specimen_uuid sp"
    using find_last_SomeD [OF Some] by simp_all
  from assms(1) Some obtain ss where
    fold: "foldM (merge_sample compare parse) (samples specObj, l) (samples sp) = Inr (ss, l')"
    and saved': "saved' = replace_last (\<lambda>s. specimen_uuid s = specimen_uuid sp)
                            (specObj\<lparr>samples := ss\<rparr>) saved"
    by (auto simp: merge_specimen_def split: sum.splits)
  have "wf_specimen specObj" using assms(3) mem by (simp add: list_all_iff)
  then have "wf_specimen (specObj\<lparr>samples := ss\<rparr>)"
    using merge_samples_wf [OF fold] assms(4) by (simp add: wf_specimen_def)
  then have "list_all wf_specimen saved'"
    unfolding saved' using assms(3) by (simp add: list_all_replace_last)
  moreover have "map specimen_uuid saved' = map specimen_uuid saved"
    unfolding saved' by (rule map_replace_last) (simp add: key)
  ultimately show ?thesis using assms(2) by simp
qed

lemma merge_specimens_wf:
  assumes "foldM (merge_specimen compare parse) (saved, l) sps = Inr (saved', l')"
    and "distinct (map specimen_uuid saved)" and "list_all wf_specimen saved"
    and "list_all wf_specimen sps"
  shows "distinct (map specimen_uuid saved') \<and> list_all wf_specimen saved'"
proof -
  have "distinct (map specimen_uuid (fst (saved', l'))) \<and> list_all wf_specimen (fst (saved', l'))"
  proof (rule foldM_invariant [OF assms(1),
        where P = "\<lambda>s. distinct (map specimen_uuid (fst s)) \<and> list_all wf_specimen (fst s)"])
    show "distinct (map specimen_uuid (fst (saved, l))) \<and> list_all wf_specimen (fst (saved, l))"
      using assms(2,3) by simp
  next
    fix s x s'
    assume "x \<in> set sps"
      and "distinct (map specimen_uuid (fst s)) \<and> list_all wf_specimen (fst s)"
      and "merge_specimen compare parse s x = Inr s'"
    then show "distinct (map specimen_uuid (fst s')) \<and> list_all wf_specimen (fst s')"
      using merge_specimen_wf [of compare parse "fst s" "snd s" x "fst s'" "snd s'"] assms(4)
      by (simp add: list_all_iff)
  qed
  then show ?thesis by simp
qed

lemma merge_bundle_wf:
  assumes "merge_bundle compare parse st B = Inr st'" and "wf_donor B"
    and "\<And>d D. donorMapping st d = Some D \<Longrightarrow> wf_donor D"
    and "donorMapping st' d = Some D"
  shows "wf_donor D"
proof (cases "donorMapping st (donor_uuid B)")
  case None
  with assms(1) have "donorMapping st' = (donorMapping st)(donor_uuid B \<mapsto> B)"
    by (auto simp: merge_bundle_def)
  with assms(2,3,4) show ?thesis by (auto split: if_splits)
next
  case (Some donorObj)
  with assms(1) obtain tsl sp tsl' where
    fold: "foldM (merge_specimen compare parse) (specimen donorObj, tsl) (specimen B) = Inr (sp, tsl')"
    and dm: "donorMapping st' = (donorMapping st)(donor_uuid B \<mapsto> donorObj\<lparr>specimen := sp\<rparr>)"
    by (auto simp: merge_bundle_def split: option.splits sum.splits)
  have "wf_donor donorObj" using assms(3) Some by blast
  then have "wf_donor (donorObj\<lparr>specimen := sp\<rparr>)"
    using merge_specimens_wf [OF fold] assms(2) by (simp add: wf_donor_def)
  with assms(3,4) show ?thesis by (auto simp: dm split: if_splits)
qed

lemma merge_all_wf:
  assumes "merge_all compare parse bs = Inr st" and "list_all wf_donor bs"
    and "donorMapping st d = Some D"
  shows "wf_donor D"
  using assms
proof (induction bs arbitrary: st d D rule: rev_induct)
  case Nil
  then show ?case by (auto simp: merge_all_def empty_state_def)
next
  case (snoc B bs)
  from snoc.prems(1) obtain st0 where st0: "merge_all compare parse bs = Inr st0"
    by (auto simp: merge_all_append split: sum.splits)
  with snoc.prems(1) have step: "merge_bundle compare parse st0 B = Inr st"
    by (simp add: merge_all_snoc)
  have "wf_donor B" and all: "list_all wf_donor bs" using snoc.prems(2) by simp_all
  have prev: "\<And>d' D'. donorMapping st0 d' = Some D' \<Longrightarrow> wf_donor D'"
    using snoc.IH [OF st0 all] by blast
  show ?case
    by (rule merge_bundle_wf [OF step \<open>wf_donor B\<close> prev snoc.prems(3)])
qed

text \<open>
  Claim C4, amended. The bundles are such that no sample has two entries of one
  analysis type (and no specimen two samples, no donor two specimens, of one
  identifier), as every bundle built by \<^verbatim>\<open>getWorkflowObjects\<close> is. Then no sample of a
  merged donor has two entries of one analysis type, whatever their workflow names and
  bundle identifiers are. And an incoming entry whose analysis type the saved sample
  does not have is appended to the sample's list.
\<close>

theorem analysis_unique_by_type:
  "(list_all wf_donor bs \<and> lookup_donor (mergeDonors compare parse bs) d = Some D
      \<and> sp \<in> set (specimen D) \<and> sa \<in> set (samples sp) \<longrightarrow>
      distinct (map analysis_type (analysis sa)))
   \<and> (merge_all compare parse pre = Inr st
      \<and> donorMapping st (donor_uuid B) = Some donorObj
      \<and> uuid_to_timestamp st (donor_uuid B) = Some timestamp_list
      \<and> specimen B = [sp'] \<and> samples sp' = [sa'] \<and> analysis sa' = [b]
      \<and> find_last (\<lambda>s. specimen_uuid s = specimen_uuid sp') (specimen donorObj) = Some specObj
      \<and> find_last (\<lambda>s. sample_uuid s = sample_uuid sa') (samples specObj) = Some sampleObj
      \<and> find_last (\<lambda>s. analysis_type s = analysis_type b) (analysis sampleObj) = None \<longrightarrow>
      merge_all compare parse (pre @ [B]) =
        Inr (st\<lparr>donorMapping :=
                  (donorMapping st)(donor_uuid B \<mapsto>
                     put_analysis donorObj specObj sampleObj (analysis sampleObj @ [b])),
                uuid_to_timestamp :=
                  (uuid_to_timestamp st)(donor_uuid B \<mapsto> record_timestamp b timestamp_list)\<rparr>))"
proof (intro conjI impI)
  assume a: "list_all wf_donor bs \<and> lookup_donor (mergeDonors compare parse bs) d = Some D
      \<and> sp \<in> set (specimen D) \<and> sa \<in> set (samples sp)"
  then obtain m where m: "mergeDonors compare parse bs = Inr m" and D: "m d = Some D"
    by (cases "mergeDonors compare parse bs") (auto simp: lookup_donor_def)
  obtain st where st: "merge_all compare parse bs = Inr st"
    using merge_all_total [OF m] by blast
  from m D mergeDonors_result [OF st] obtain D0 t
    where D0: "donorMapping st d = Some D0" and DD: "D = D0\<lparr>timestamp := t\<rparr>"
    by auto
  have "wf_donor D0" using merge_all_wf [OF st _ D0] a by blast
  then have "wf_donor D" by (simp add: DD wf_donor_def)
  with a have "wf_specimen sp" by (simp add: wf_donor_def list_all_iff)
  with a have "wf_sample sa" by (simp add: wf_specimen_def list_all_iff)
  then show "distinct (map analysis_type (analysis sa))" by (simp add: wf_sample_def)
next
  assume a: "merge_all compare parse pre = Inr st
      \<and> donorMapping st (donor_uuid B) = Some donorObj
      \<and> uuid_to_timestamp st (donor_uuid B) = Some timestamp_list
      \<and> specimen B = [sp'] \<and> samples sp' = [sa'] \<and> analysis sa' = [b]
      \<and> find_last (\<lambda>s. specimen_uuid s = specimen_uuid sp') (specimen donorObj) = Some specObj
      \<and> find_last (\<lambda>s. sample_uuid s = sample_uuid sa') (samples specObj) = Some sampleObj
      \<and> find_last (\<lambda>s. analysis_type s = analysis_type b) (analysis sampleObj) = None"
  then have "merge_bundle compare parse st B =
    (case merge_analysis compare parse (analysis sampleObj, timestamp_list) b of
       Inl e \<Rightarrow> Inl e
     | Inr (as, tsl) \<Rightarrow>
         Inr (st\<lparr>donorMapping :=
                   (donorMapping st)(donor_uuid B \<mapsto> put_analysis donorObj specObj sampleObj as),
                 uuid_to_timestamp := (uuid_to_timestamp st)(donor_uuid B \<mapsto> tsl)\<rparr>))"
    using merge_bundle_path [of st B donorObj timestamp_list sp' sa' b specObj sampleObj]
    by blast
  with a show "merge_all compare parse (pre @ [B]) =
        Inr (st\<lparr>donorMapping :=
                  (donorMapping st)(donor_uuid B \<mapsto>
                     put_analysis donorObj specObj sampleObj (analysis sampleObj @ [b])),
                uuid_to_timestamp :=
                  (uuid_to_timestamp st)(donor_uuid B \<mapsto> record_timestamp b timestamp_list)\<rparr>)"
    by (simp add: merge_all_snoc merge_analysis_def)
qed

lemma merged_v1_star:
  "lookup_donor (mergeDonors semver_plain dateutil_parser [bundle_v1, bundle_star]) ''d1'' =
     Some (path_bundle ''d1'' ''2017-01-01T00:00:00'' ''sp1'' ''sa1''
             (entry ''star'' ''1.5.0'' ''alignment'' None))"
  by code_simp

lemma wf_v1_star: "list_all wf_donor [bundle_v1, bundle_star]"
  by code_simp

text \<open>
  Instances. Of the entries of \<^verbatim>\<open>rnaseq 1.0.0\<close> and \<^verbatim>\<open>star 1.5.0\<close>, both of type
  \<^verbatim>\<open>alignment\<close>, one is left. The entry of type \<^verbatim>\<open>variants\<close> is appended to the
  sample that has an \<^verbatim>\<open>alignment\<close> entry.
\<close>

theorem analysis_unique_by_type_witness:
  "distinct (map analysis_type [entry ''star'' ''1.5.0'' ''alignment'' None])
   \<and> lookup_donor (mergeDonors semver_plain dateutil_parser [bundle_v1, bundle_star]) ''d1'' =
     Some (path_bundle ''d1'' ''2017-01-01T00:00:00'' ''sp1'' ''sa1''
             (entry ''star'' ''1.5.0'' ''alignment'' None))
   \<and> merge_all semver_plain dateutil_parser ([bundle_v1] @ [bundle_jan]) =
     Inr \<lparr>donorMapping =
            [''d1'' \<mapsto> bundle_v1\<lparr>specimen :=
               [\<lparr>submitter_specimen_id = ''sp1'', submitter_specimen_type = ''Normal'',
                 submitter_experimental_design = ''RNA-Seq'', specimen_uuid = ''sp1'',
                 samples =
                   [\<lparr>submitter_sample_id = ''sa1'', sample_uuid = ''sa1'',
                     analysis =
                       [entry ''rnaseq'' ''1.0.0'' ''alignment'' None,
                        entry ''varcall'' ''1.0.0'' ''variants''
                          (Some ''2017-01-01T00:00:00'')]\<rparr>]\<rparr>]\<rparr>],
          uuid_to_timestamp = [''d1'' \<mapsto> [''2017-01-01T00:00:00'', ''2017-01-01T00:00:00'']],
          uuid_keys = [''d1'']\<rparr>"
proof -
  let ?e1 = "entry ''rnaseq'' ''1.0.0'' ''alignment'' None"
  let ?es = "entry ''star'' ''1.5.0'' ''alignment'' None"
  let ?ej = "entry ''varcall'' ''1.0.0'' ''variants'' (Some ''2017-01-01T00:00:00'')"
  let ?sa = "\<lambda>e. \<lparr>submitter_sample_id = ''sa1'', sample_uuid = ''sa1'', analysis = [e]\<rparr>"
  let ?sp = "\<lambda>e. \<lparr>submitter_specimen_id = ''sp1'', submitter_specimen_type = ''Normal'',
          submitter_experimental_design = ''RNA-Seq'', specimen_uuid = ''sp1'',
          samples = [?sa e]\<rparr>"
  note inst = analysis_unique_by_type [where compare = semver_plain and parse = dateutil_parser
        and bs = "[bundle_v1, bundle_star]" and d = "''d1''"
        and D = "path_bundle ''d1'' ''2017-01-01T00:00:00'' ''sp1'' ''sa1'' ?es"
        and sp = "?sp ?es" and sa = "?sa ?es"
        and pre = "[bundle_v1]" and B = bundle_jan and donorObj = bundle_v1
        and st = "\<lparr>donorMapping = [''d1'' \<mapsto> bundle_v1],
                    uuid_to_timestamp = [''d1'' \<mapsto> [''2017-01-01T00:00:00'']],
                    uuid_keys = [''d1'']\<rparr>"
        and timestamp_list = "[''2017-01-01T00:00:00'']"
        and sp' = "?sp ?ej" and sa' = "?sa ?ej" and b = ?ej
        and specObj = "?sp ?e1" and sampleObj = "?sa ?e1"]
  have first: "distinct (map analysis_type [?es])"
    using inst [THEN conjunct1] wf_v1_star merged_v1_star
    by (simp add: path_bundle_def)
  have st: "merge_all semver_plain dateutil_parser [bundle_v1] =
      Inr \<lparr>donorMapping = [''d1'' \<mapsto> bundle_v1],
           uuid_to_timestamp = [''d1'' \<mapsto> [''2017-01-01T00:00:00'']],
           uuid_keys = [''d1'']\<rparr>"
    by (simp add: merge_all_single bundle_v1_def path_bundle_def)
  have second: "merge_all semver_plain dateutil_parser ([bundle_v1] @ [bundle_jan]) =
     Inr \<lparr>donorMapping =
            [''d1'' \<mapsto> bundle_v1\<lparr>specimen := [(?sp ?e1)\<lparr>samples := [(?sa ?e1)\<lparr>analysis := [?e1, ?ej]\<rparr>]\<rparr>]\<rparr>],
          uuid_to_timestamp = [''d1'' \<mapsto> [''2017-01-01T00:00:00'', ''2017-01-01T00:00:00'']],
          uuid_keys = [''d1'']\<rparr>"
    using inst [THEN conjunct2] st
    by (simp add: bundle_v1_def bundle_jan_def path_bundle_def entry_def find_last_def
        put_analysis_def record_timestamp_def)
  from first merged_v1_star second show ?thesis by simp
qed


text \<open>
  Without the hypothesis on the bundles the claim fails. The first bundle of a donor
  is stored as it is, and a sample that is new to a saved specimen is appended as it
  is: the merge does not look inside them. Here the first bundle and the sample
  \<^verbatim>\<open>sa2\<close> of the second each keep two entries of the type \<^verbatim>\<open>alignment\<close>.
\<close>

theorem analysis_duplicates_counterexample:
  "map_option sample_types
     (lookup_donor (mergeDonors semver_plain dateutil_parser [bundle_twice]) ''d1'')
   = Some [(''sa2'', [''alignment'', ''alignment''])]
   \<and> map_option sample_types
     (lookup_donor (mergeDonors semver_plain dateutil_parser [bundle_v1, bundle_twice]) ''d1'')
   = Some [(''sa1'', [''alignment'']), (''sa2'', [''alignment'', ''alignment''])]
   \<and> map_option all_analysis
     (lookup_donor (mergeDonors semver_plain dateutil_parser [bundle_v1, bundle_twice]) ''d1'')
   = Some [entry ''rnaseq'' ''1.0.0'' ''alignment'' None,
           entry ''rnaseq'' ''1.0.0'' ''alignment'' None,
           entry ''star'' ''1.5.0'' ''alignment'' None]"
  by code_simp

lemma first_bundle_verbatim:
  "mergeDonors compare parse [A] = Inr [donor_uuid A \<mapsto> A]"
  by (simp add: mergeDonors_def merge_all_single)

text \<open>Every object that \<^verbatim>\<open>getWorkflowObjects\<close> builds satisfies the hypothesis.\<close>

lemma workflowObj_wf: "wf_donor (workflowObj_of now metaObj outputs)"
  by (simp add: wf_donor_def wf_specimen_def wf_sample_def workflowObj_of_def)

section \<open>Identifier derivation\<close>

lemma lower_append: "lower (xs @ ys) = lower xs @ lower ys"
  by (simp add: lower_def)

lemma encode_text: "is_text c \<Longrightarrow> encode_ascii_ignore c = Inr (ascii_part c)"
proof (cases c)
  case (Str s)
  assume "is_text c"
  with Str have "ascii s" by simp
  then have "filter (\<lambda>c. (of_char c :: nat) < 128) s = s"
    by (simp add: ascii_def list_all_iff)
  with Str \<open>ascii s\<close> show ?thesis by simp
qed simp_all

text \<open>The loop over components that are texts collects their ASCII parts.\<close>

lemma encode_loop_texts:
  "list_all is_text cs \<Longrightarrow>
   foldM append_encoded strings cs = Inr (strings @ map ascii_part cs)"
  by (induction cs arbitrary: strings) (simp_all add: append_encoded_def encode_text)

lemma normalized_name_lower:
  "lower (concat (map ascii_part cs)) = normalized_name cs"
  by (induction cs) (simp_all add: normalized_name_def lower_append lower_def)

lemma generateUuid5_texts:
  assumes "list_all is_text cs"
  shows "generateUuid5 uuid5 namespace cs = Inr (uuid5 namespace (normalized_name cs))"
  using encode_loop_texts [OF assms, of "[]"]
  by (simp add: generateUuid5_def normalized_name_lower)

text \<open>
  A byte string with a byte from 128 on makes the derivation raise, also after the
  \<^verbatim>\<open>'ignore'\<close>: it is not a text in the sense above.
\<close>

lemma generateUuid5_bytes:
  assumes "list_all is_text pre" and "\<not> ascii s"
  shows "generateUuid5 uuid5 namespace (pre @ Str s # post) = Inl UnicodeDecodeError"
  using encode_loop_texts [OF assms(1), of "[]"] assms(2)
  by (simp add: generateUuid5_def foldM_append append_encoded_def)

text \<open>
  Claim C3, amended. For a tuple of texts, the identifier is the hash of the namespace
  and of one string: the concatenation of the components, each without its non-ASCII
  characters and in lower case. So it is a function of the tuple, and two tuples with
  the same such string have the same identifier. (Whether two tuples with different
  strings have different identifiers is a property of the hash, which is not
  modelled.)
\<close>

theorem generateUuid5_of_concat:
  assumes "list_all is_text a" and "list_all is_text b"
  shows "generateUuid5 uuid5 namespace a = Inr (uuid5 namespace (normalized_name a))
       \<and> (normalized_name a = normalized_name b \<longrightarrow>
            generateUuid5 uuid5 namespace a = generateUuid5 uuid5 namespace b)"
  by (simp add: generateUuid5_texts [OF assms(1)] generateUuid5_texts [OF assms(2)])

text \<open>
  Instance: the components \<^verbatim>\<open>u"A\xe9b"\<close> and \<^verbatim>\<open>"c"\<close>, and the components \<^verbatim>\<open>"a"\<close> and
  \<^verbatim>\<open>"BC"\<close>, are both hashed as \<^verbatim>\<open>abc\<close>.
\<close>

theorem generateUuid5_of_concat_witness:
  "generateUuid5 uuid5_formal NAMESPACE_URL [Unicode [65, 233, 98], Str ''c''] =
     Inr (uuid5_formal NAMESPACE_URL ''abc'')
   \<and> generateUuid5 uuid5_formal NAMESPACE_URL [Unicode [65, 233, 98], Str ''c''] =
     generateUuid5 uuid5_formal NAMESPACE_URL [Str ''a'', Str ''BC'']"
proof -
  have t1: "list_all is_text [Unicode [65, 233, 98], Str ''c'']"
    by code_simp
  have t2: "list_all is_text [Str ''a'', Str ''BC'']"
    by code_simp
  have n1: "normalized_name [Unicode [65, 233, 98], Str ''c''] = ''abc''"
    by code_simp
  have n2: "normalized_name [Str ''a'', Str ''BC''] = ''abc''"
    by code_simp
  from generateUuid5_of_concat [OF t1 t2, of uuid5_formal NAMESPACE_URL]
  show ?thesis unfolding n1 n2 by blast
qed

text \<open>
  The claim that different tuples have different identifiers fails whatever the hash
  is: the tuples \<^verbatim>\<open>("ab", "c")\<close> and \<^verbatim>\<open>("a", "bc")\<close> differ, and so do
  \<^verbatim>\<open>("UCSC", "D1")\<close> and \<^verbatim>\<open>("ucsc", "D1")\<close>, which differ in one component; each pair
  has one identifier.
\<close>

theorem generateUuid5_counterexample:
  "[Str ''ab'', Str ''c''] \<noteq> [Str ''a'', Str ''bc'']
   \<and> generateUuid5 uuid5_formal NAMESPACE_URL [Str ''ab'', Str ''c''] =
     generateUuid5 uuid5_formal NAMESPACE_URL [Str ''a'', Str ''bc'']
   \<and> [Str ''UCSC'', Str ''D1''] \<noteq> [Str ''ucsc'', Str ''D1'']
   \<and> generateUuid5 uuid5_formal NAMESPACE_URL [Str ''UCSC'', Str ''D1''] =
     generateUuid5 uuid5_formal NAMESPACE_URL [Str ''ucsc'', Str ''D1'']"
  by code_simp

text \<open>
  A cell of a tab-separated file with the two bytes of \<^verbatim>\<open>\xc3\xa9\<close> in it: the
  derivation raises.
\<close>

lemma generateUuid5_bytes_instance:
  "generateUuid5 uuid5_formal NAMESPACE_URL [Str ''UCSC'', Str [CHR 0x4A, CHR 0xC3, CHR 0xA9]]
     = Inl UnicodeDecodeError"
  by code_simp


section \<open>Rows with a missing field\<close>

text \<open>The fields of a key list that are there, as texts: the loop collects them.\<close>

lemma key_values_texts:
  assumes "\<forall>f \<in> set fs. \<exists>v. d f = Some v \<and> is_text v"
  shows "\<exists>vs. key_values d fs = Inr (Keys vs) \<and> list_all is_text vs"
  using assms
proof (induction fs)
  case Nil
  then show ?case by simp
next
  case (Cons f fs)
  then obtain v where v: "d f = Some v" "is_text v" by auto
  then have "v \<noteq> NoneVal" by auto
  moreover from Cons obtain vs where "key_values d fs = Inr (Keys vs)" "list_all is_text vs"
    by auto
  ultimately show ?case using v by simp
qed

text \<open>A key list with a field that the row does not have: \<^verbatim>\<open>dataObj[field]\<close> raises.\<close>

lemma key_values_absent:
  assumes "k \<in> set fs" and "d k = None"
    and "\<forall>f \<in> set fs. f \<noteq> k \<longrightarrow> (\<exists>v. d f = Some v \<and> is_text v)"
  shows "key_values d fs = Inl KeyError"
  using assms
proof (induction fs)
  case Nil
  then show ?case by simp
next
  case (Cons f fs)
  show ?case
  proof (cases "f = k")
    case True
    with Cons.prems(2) show ?thesis by simp
  next
    case False
    with Cons.prems obtain v where v: "d f = Some v" "is_text v" by auto
    then have nn: "v \<noteq> NoneVal" by auto
    have "key_values d fs = Inl KeyError"
      using Cons.IH Cons.prems False by auto
    with v nn show ?thesis by simp
  qed
qed

text \<open>Setting an identifier leaves the fields of the key lists as they are.\<close>

lemma texts_upd:
  assumes "\<forall>f \<in> K. f \<noteq> k \<longrightarrow> (\<exists>v. d f = Some v \<and> is_text v)" and "u \<notin> K"
  shows "\<forall>f \<in> K. f \<noteq> k \<longrightarrow> (\<exists>v. (d(u \<mapsto> x)) f = Some v \<and> is_text v)"
proof (intro ballI impI)
  fix f
  assume f: "f \<in> K" "f \<noteq> k"
  with assms(2) have "f \<noteq> u" by blast
  then have "(d(u \<mapsto> x)) f = d f" by simp
  with assms(1) f show "\<exists>v. (d(u \<mapsto> x)) f = Some v \<and> is_text v" by simp
qed

text \<open>
  The loop over the identifiers, for a row that has the fields \<open>K\<close> of the key lists
  as texts, but for \<open>k\<close>, which is in none of the lists: it sets each identifier and
  ends without a log entry.
\<close>

lemma set_key_uuids_texts:
  assumes "\<And>u fs. (u, fs) \<in> set items \<Longrightarrow> set fs \<subseteq> K \<and> u \<notin> K \<and> k \<notin> set fs"
    and "\<forall>f \<in> K. f \<noteq> k \<longrightarrow> (\<exists>v. d f = Some v \<and> is_text v)"
  shows "\<exists>d'. set_key_uuids uuid5 d items = Inr (d', None)
           \<and> (\<forall>f. f \<notin> fst ` set items \<longrightarrow> d' f = d f)
           \<and> (\<forall>u \<in> fst ` set items. \<exists>s. d' u = Some (Str s))"
  using assms
proof (induction items arbitrary: d)
  case Nil
  then show ?case by simp
next
  case (Cons item items)
  obtain u fs where item: "item = (u, fs)" by (cases item)
  have here: "set fs \<subseteq> K \<and> u \<notin> K \<and> k \<notin> set fs"
    by (rule Cons.prems(1)) (simp add: item)
  then have fs: "set fs \<subseteq> K" and u: "u \<notin> K" and kfs: "k \<notin> set fs" by simp_all
  have rest: "set fs' \<subseteq> K \<and> u' \<notin> K \<and> k \<notin> set fs'" if "(u', fs') \<in> set items" for u' fs'
    by (rule Cons.prems(1)) (simp add: that)
  have "\<exists>v. d f = Some v \<and> is_text v" if "f \<in> set fs" for f
  proof -
    from that fs kfs have "f \<in> K" "f \<noteq> k" by blast+
    with Cons.prems(2) show ?thesis by simp
  qed
  then have "\<forall>f \<in> set fs. \<exists>v. d f = Some v \<and> is_text v" by blast
  from key_values_texts [OF this] obtain vs where
    vs: "key_values d fs = Inr (Keys vs)" "list_all is_text vs" by blast
  define uuid where "uuid = uuid5 NAMESPACE_URL (normalized_name vs)"
  define d1 where "d1 = d(u \<mapsto> Str uuid)"
  have gen: "generateUuid5 uuid5 NAMESPACE_URL vs = Inr uuid"
    unfolding uuid_def by (rule generateUuid5_texts [OF vs(2)])
  have "\<forall>f \<in> K. f \<noteq> k \<longrightarrow> (\<exists>v. d1 f = Some v \<and> is_text v)"
    unfolding d1_def by (rule texts_upd [OF Cons.prems(2) u])
  from Cons.IH [OF rest this] obtain d' where
    run: "set_key_uuids uuid5 d1 items = Inr (d', None)"
    and same: "\<forall>f. f \<notin> fst ` set items \<longrightarrow> d' f = d1 f"
    and names: "\<forall>u \<in> fst ` set items. \<exists>s. d' u = Some (Str s)"
    by blast
  have run': "set_key_uuids uuid5 d (item # items) = Inr (d', None)"
    using run by (simp add: item vs(1) gen d1_def)
  have same': "d' f = d f" if "f \<notin> fst ` set (item # items)" for f
  proof -
    from that have "f \<noteq> u" "f \<notin> fst ` set items" by (simp_all add: item)
    with same have "d' f = d1 f" by blast
    with \<open>f \<noteq> u\<close> show ?thesis by (simp add: d1_def)
  qed
  have head: "\<exists>s. d' u = Some (Str s)"
  proof (cases "u \<in> fst ` set items")
    case True
    with names show ?thesis by blast
  next
    case False
    with same have "d' u = d1 u" by blast
    then show ?thesis by (simp add: d1_def)
  qed
  have names': "\<exists>s. d' w = Some (Str s)" if "w \<in> fst ` set (item # items)" for w
  proof (cases "w = u")
    case True
    with head show ?thesis by simp
  next
    case False
    with that have "w \<in> fst ` set items" by (simp add: item)
    with names show ?thesis by blast
  qed
  from run' same' names' show ?case by blast
qed

text \<open>
  The same loop, for a row that lacks the field \<open>k\<close> of some key list and has the
  other fields as texts: it raises \<^verbatim>\<open>KeyError\<close>.
\<close>

lemma set_key_uuids_absent:
  assumes "\<And>u fs. (u, fs) \<in> set items \<Longrightarrow> set fs \<subseteq> K \<and> u \<notin> K"
    and "(u0, fs0) \<in> set items" and "k \<in> set fs0"
    and "d k = None" and "\<forall>f \<in> K. f \<noteq> k \<longrightarrow> (\<exists>v. d f = Some v \<and> is_text v)"
  shows "set_key_uuids uuid5 d items = Inl KeyError"
  using assms
proof (induction items arbitrary: d)
  case Nil
  then show ?case by simp
next
  case (Cons item items)
  obtain u fs where item: "item = (u, fs)" by (cases item)
  have here: "set fs \<subseteq> K \<and> u \<notin> K"
    by (rule Cons.prems(1)) (simp add: item)
  then have fs: "set fs \<subseteq> K" and u: "u \<notin> K" by simp_all
  have rest: "set fs' \<subseteq> K \<and> u' \<notin> K" if "(u', fs') \<in> set items" for u' fs'
    by (rule Cons.prems(1)) (simp add: that)
  have "set fs0 \<subseteq> K \<and> u0 \<notin> K"
    by (rule Cons.prems(1)) (rule Cons.prems(2))
  with Cons.prems(3) have k: "k \<in> K" by blast
  show ?case
  proof (cases "k \<in> set fs")
    case True
    have "\<forall>f \<in> set fs. f \<noteq> k \<longrightarrow> (\<exists>v. d f = Some v \<and> is_text v)"
      using fs Cons.prems(5) by blast
    from key_values_absent [OF True Cons.prems(4) this] show ?thesis
      by (simp add: item)
  next
    case False
    have "\<exists>v. d f = Some v \<and> is_text v" if "f \<in> set fs" for f
    proof -
      from that fs False have "f \<in> K" "f \<noteq> k" by blast+
      with Cons.prems(5) show ?thesis by simp
    qed
    then have "\<forall>f \<in> set fs. \<exists>v. d f = Some v \<and> is_text v" by blast
    from key_values_texts [OF this] obtain vs where
      vs: "key_values d fs = Inr (Keys vs)" "list_all is_text vs" by blast
    define uuid where "uuid = uuid5 NAMESPACE_URL (normalized_name vs)"
    define d1 where "d1 = d(u \<mapsto> Str uuid)"
    have gen: "generateUuid5 uuid5 NAMESPACE_URL vs = Inr uuid"
      unfolding uuid_def by (rule generateUuid5_texts [OF vs(2)])
    from Cons.prems(2) False Cons.prems(3) have later: "(u0, fs0) \<in> set items"
      by (auto simp: item)
    from k u have "k \<noteq> u" by blast
    with Cons.prems(4) have absent: "d1 k = None" by (simp add: d1_def)
    have others: "\<forall>f \<in> K. f \<noteq> k \<longrightarrow> (\<exists>v. d1 f = Some v \<and> is_text v)"
      unfolding d1_def by (rule texts_upd [OF Cons.prems(5) u])
    have "set_key_uuids uuid5 d1 items = Inl KeyError"
      by (rule Cons.IH [OF rest later Cons.prems(3) absent others])
    then have "set_key_uuids uuid5 (d(u \<mapsto> Str uuid)) items = Inl KeyError"
      unfolding d1_def .
    then show ?thesis by (simp add: item vs(1) gen)
  qed
qed

text \<open>
  \<^verbatim>\<open>setUuids\<close> on a row that lacks one of the six fields and has the other five as
  texts.
\<close>

lemma setUuids_absent:
  assumes items: "set items = set keyFieldsMapping"
    and k: "k \<in> set business_keys" and absent: "d k = None"
    and others: "\<forall>f \<in> set business_keys. f \<noteq> k \<longrightarrow> (\<exists>v. d f = Some v \<and> is_text v)"
  shows "setUuids uuid5 items d = Inl KeyError"
proof -
  define K where "K = {''center_name'', ''submitter_donor_id'', ''submitter_specimen_id'',
             ''submitter_sample_id''}"
  define fs4 where "fs4 = [''center_name'', ''submitter_donor_id'',
                   ''submitter_specimen_id'', ''submitter_sample_id'']"
  have names: "fst ` set items = {''donor_uuid'', ''specimen_uuid'', ''sample_uuid''}"
    unfolding items by (simp add: keyFieldsMapping_def)
  have sample: "(''sample_uuid'', fs4) \<in> set items"
    unfolding items fs4_def by (simp add: keyFieldsMapping_def)
  have fs4: "set fs4 = K"
    unfolding fs4_def K_def by simp
  have shape: "set fs \<subseteq> K \<and> u \<notin> K" if "(u, fs) \<in> set items" for u fs
    using that unfolding items K_def by (auto simp: keyFieldsMapping_def)
  have sub: "K \<subseteq> set business_keys"
    unfolding K_def by (simp add: business_keys_def)
  have wk: "k = ''workflow_name'' \<or> k = ''workflow_version''" if "k \<notin> K"
    using k that unfolding K_def by (simp add: business_keys_def)
  have wn: "''workflow_name'' \<in> set business_keys"
    by (simp add: business_keys_def)
  have four: "\<forall>f \<in> K. f \<noteq> k \<longrightarrow> (\<exists>v. d f = Some v \<and> is_text v)"
  proof (intro ballI impI)
    fix f
    assume "f \<in> K" "f \<noteq> k"
    with sub have "f \<in> set business_keys" "f \<noteq> k" by blast+
    with others show "\<exists>v. d f = Some v \<and> is_text v" by simp
  qed
  show ?thesis
  proof (cases "k \<in> K")
    case True
    then have kin: "k \<in> set fs4" by (simp add: fs4)
    have "set_key_uuids uuid5 d items = Inl KeyError"
      by (rule set_key_uuids_absent [of items K, OF shape sample kin absent four])
    then show ?thesis by (simp add: setUuids_def)
  next
    case False
    note wk = wk [OF False]
    have shape': "set fs \<subseteq> K \<and> u \<notin> K \<and> k \<notin> set fs" if "(u, fs) \<in> set items" for u fs
    proof -
      from shape [OF that] have a: "set fs \<subseteq> K" and b: "u \<notin> K" by simp_all
      from a False have "k \<notin> set fs" by (rule contra_subsetD)
      with a b show ?thesis by simp
    qed
    from set_key_uuids_texts [of items K k d uuid5, OF shape' four] obtain d' where
      run: "set_key_uuids uuid5 d items = Inr (d', None)"
      and same: "\<forall>f. f \<notin> fst ` set items \<longrightarrow> d' f = d f"
      and set: "\<forall>u \<in> fst ` set items. \<exists>s. d' u = Some (Str s)"
      by blast
    have "''sample_uuid'' \<in> fst ` set items" by (simp add: names)
    with set obtain su where su: "d' ''sample_uuid'' = Some (Str su)" by blast
    have "''workflow_name'' \<notin> fst ` set items" by (simp add: names)
    with same have wn': "d' ''workflow_name'' = d ''workflow_name''" by blast
    have "''workflow_version'' \<notin> fst ` set items" by (simp add: names)
    with same have wv': "d' ''workflow_version'' = d ''workflow_version''" by blast
    from wk show ?thesis
    proof
      assume kn: "k = ''workflow_name''"
      with absent have "d ''workflow_name'' = None" by simp
      then have "key_values d' workflow_uuid_keys = Inl KeyError"
        by (simp add: workflow_uuid_keys_def su wn')
      then show ?thesis by (simp add: setUuids_def run)
    next
      assume kv: "k = ''workflow_version''"
      then have "''workflow_name'' \<noteq> k" by simp
      with others wn obtain v where v: "d ''workflow_name'' = Some v" "is_text v" by blast
      then have nn: "v \<noteq> NoneVal" by auto
      from absent kv have "d ''workflow_version'' = None" by simp
      then have "key_values d' workflow_uuid_keys = Inl KeyError"
        using v(1) nn by (simp add: workflow_uuid_keys_def su wn' wv')
      then show ?thesis by (simp add: setUuids_def run)
    qed
  qed
qed

text \<open>
  Claim C6, where the code departs from it. A row lacks one of the six fields as a
  key (the input has no such column) and has the other five as texts. Then
  \<^verbatim>\<open>setUuids\<close> raises \<^verbatim>\<open>KeyError\<close> at \<^verbatim>\<open>dataObj[field]\<close>; nothing catches it, so
  \<^verbatim>\<open>getDataObj\<close> does not return \<^verbatim>\<open>None\<close> and the loop over the rows ends there: the
  rows after it are not processed and nothing is collected.
\<close>

theorem missing_field_row:
  assumes "set items = set keyFieldsMapping"
    and "k \<in> set business_keys" and "data k = None"
    and "\<forall>f \<in> set business_keys. f \<noteq> k \<longrightarrow> (\<exists>v. data f = Some v \<and> is_text v)"
    and "collect_rows uuid5 items propNames validate pre = Inr r"
  shows "getDataObj uuid5 items propNames validate data = Inl KeyError
       \<and> collect_rows uuid5 items propNames validate (pre @ data # post) = Inl KeyError"
proof -
  have "setUuids uuid5 items data = Inl KeyError"
    by (rule setUuids_absent [OF assms(1-4)])
  then have get: "getDataObj uuid5 items propNames validate data = Inl KeyError"
    by (simp add: getDataObj_def)
  then have "collect_row uuid5 items propNames validate r data = Inl KeyError"
    by (cases r) (simp add: collect_row_def)
  then have "collect_rows uuid5 items propNames validate (pre @ data # post) = Inl KeyError"
    using assms(5) by (simp add: collect_rows_def foldM_append)
  with get show ?thesis by simp
qed

text \<open>
  Instance: the input has no column \<^verbatim>\<open>workflow_version\<close>. The first row raises and
  the complete row after it is not processed.
\<close>

lemma row_no_version_others:
  "\<forall>f \<in> set business_keys. f \<noteq> ''workflow_version'' \<longrightarrow>
     (\<exists>v. row_no_version f = Some v \<and> is_text v)"
  by (simp add: business_keys_def row_no_version_def ascii_def)

theorem missing_field_row_witness:
  "getDataObj uuid5_formal keyFieldsMapping business_keys (validate_strings business_keys)
     row_no_version = Inl KeyError
   \<and> collect_rows uuid5_formal keyFieldsMapping business_keys (validate_strings business_keys)
       ([] @ row_no_version # [row_complete]) = Inl KeyError"
proof -
  have k: "''workflow_version'' \<in> set business_keys"
    by (simp add: business_keys_def)
  have absent: "row_no_version ''workflow_version'' = None"
    by (simp add: row_no_version_def)
  have pre: "collect_rows uuid5_formal keyFieldsMapping business_keys
               (validate_strings business_keys) [] = Inr ([], [])"
    by (simp add: collect_rows_def)
  from missing_field_row [OF refl k absent row_no_version_others pre]
  show ?thesis .
qed

text \<open>
  What the claim says is what the code does where the field is there and its value
  is \<^verbatim>\<open>None\<close>: \<^verbatim>\<open>setUuids\<close> logs the field as not found and derives no
  \<^verbatim>\<open>workflow_uuid\<close>, the schema rejects the object, \<^verbatim>\<open>getDataObj\<close> returns \<^verbatim>\<open>None\<close>
  and the row after it is collected.
\<close>

lemma null_field_row_skipped:
  "summary ''workflow_version''
     (collect_rows uuid5_formal keyFieldsMapping business_keys
        (validate_strings business_keys) [row_null_version, row_complete])
   = Inr ([Some (Str ''1.0.0'')],
          [NotFound ''workflow_version'', SchemaError, ValidationFailed])"
  by code_simp


section \<open>Assembly of the bundles\<close>

lemma append_output_workflowObj:
  "append_output (workflowObj_of t f outs) r =
     (case r of Inl e \<Rightarrow> Inl e | Inr fi \<Rightarrow> Inr (workflowObj_of t f (outs @ [fi])))"
  by (simp add: append_output_def workflowObj_of_def split: sum.splits)

lemma records_of_snoc:
  "records_of w (xs @ [x]) =
     (if x ''workflow_uuid'' = Some w then records_of w xs @ [x] else records_of w xs)"
  by (simp add: records_of_def)

lemma first_index_old:
  assumes "records_of w xs \<noteq> []"
  shows "first_index w (xs @ ys) = first_index w xs"
proof -
  from assms obtain y where "y \<in> set xs" and "\<not> (y ''workflow_uuid'' \<noteq> Some w)"
    by (auto simp: records_of_def filter_empty_conv)
  then show ?thesis
    unfolding first_index_def by simp
qed

lemma first_index_new:
  assumes "records_of w xs = []" and "x ''workflow_uuid'' = Some w"
  shows "first_index w (xs @ [x]) = length xs"
proof -
  from assms(1) have "\<And>y. y \<in> set xs \<Longrightarrow> y ''workflow_uuid'' \<noteq> Some w"
    by (auto simp: records_of_def filter_empty_conv)
  then show ?thesis
    unfolding first_index_def using assms(2) by simp
qed

lemma assembledD_Nil:
  "assembled getNow getsize sha1sum xs m \<Longrightarrow> records_of w xs = [] \<Longrightarrow> m w = None"
  unfolding assembled_def by (drule spec [of _ w]) simp

lemma assembledD_Cons:
  "assembled getNow getsize sha1sum xs m \<Longrightarrow> records_of w xs = first # rest \<Longrightarrow>
   \<exists>outs. m w = Some (workflowObj_of (getNow (first_index w xs)) first outs)
         \<and> map Inr outs = map (fileInfoObj_of getsize sha1sum) (first # rest)"
  unfolding assembled_def by (drule spec [of _ w]) simp

lemma assembledI:
  assumes "\<And>w. records_of w xs = [] \<Longrightarrow> m w = None"
    and "\<And>w first rest. records_of w xs = first # rest \<Longrightarrow>
           \<exists>outs. m w = Some (workflowObj_of (getNow (first_index w xs)) first outs)
                 \<and> map Inr outs = map (fileInfoObj_of getsize sha1sum) (first # rest)"
  shows "assembled getNow getsize sha1sum xs m"
  unfolding assembled_def
proof
  fix w
  show "case records_of w xs of
             [] \<Rightarrow> m w = None
           | first # rest \<Rightarrow>
               (\<exists>outs. m w = Some (workflowObj_of (getNow (first_index w xs)) first outs)
                     \<and> map Inr outs = map (fileInfoObj_of getsize sha1sum) (first # rest))"
    using assms(1) [of w] assms(2) [of w] by (cases "records_of w xs") simp_all
qed

lemma new_workflowObj_Inr:
  assumes "new_workflowObj now x = Inr obj"
  shows "obj = workflowObj_of now x []"
proof (cases "list_all (\<lambda>k. x k \<noteq> None) skeleton_keys")
  case True
  with assms show ?thesis by (simp only: new_workflowObj_def if_True sum.inject)
next
  case False
  with assms show ?thesis by (simp only: new_workflowObj_def if_False sum.distinct)
qed

text \<open>A step that does not raise, taken apart.\<close>

lemma workflow_step_Inr:
  assumes "workflow_step getNow getsize sha1sum (m, n) x = Inr (m', n')"
  shows "\<exists>w obj obj' fi. x ''workflow_uuid'' = Some w
          \<and> (case m w of None \<Rightarrow> obj = workflowObj_of (getNow n) x [] | Some old \<Rightarrow> obj = old)
          \<and> fileInfoObj_of getsize sha1sum x = Inr fi
          \<and> append_output obj (Inr fi) = Inr obj'
          \<and> m' = m(w \<mapsto> obj') \<and> n' = Suc n"
proof (cases "x ''workflow_uuid''")
  case None
  with assms show ?thesis by (simp add: workflow_step_def)
next
  case (Some w)
  note w = this
  show ?thesis
  proof (cases "m w")
    case None
    show ?thesis
    proof (cases "new_workflowObj (getNow n) x")
      case (Inl e)
      with assms w None show ?thesis by (simp add: workflow_step_def)
    next
      case (Inr obj)
      then have obj: "obj = workflowObj_of (getNow n) x []" by (rule new_workflowObj_Inr)
      show ?thesis
      proof (cases "fileInfoObj_of getsize sha1sum x")
        case (Inl e)
        with assms w None Inr show ?thesis
          by (simp add: workflow_step_def obj append_output_workflowObj)
      next
        case (Inr fi)
        with assms w None \<open>new_workflowObj (getNow n) x = Inr obj\<close> show ?thesis
          by (simp add: workflow_step_def obj append_output_workflowObj)
      qed
    qed
  next
    case (Some old)
    show ?thesis
    proof (cases "append_output old (fileInfoObj_of getsize sha1sum x)")
      case (Inl e)
      with assms w Some show ?thesis by (simp add: workflow_step_def)
    next
      case (Inr obj')
      then obtain fi where fi: "fileInfoObj_of getsize sha1sum x = Inr fi"
        by (cases "fileInfoObj_of getsize sha1sum x")
           (simp_all add: append_output_def split: list.splits)
      with assms w Some Inr show ?thesis
        by (simp add: workflow_step_def)
    qed
  qed
qed

lemma workflow_step_assembled:
  assumes inv: "assembled getNow getsize sha1sum xs m"
    and step: "workflow_step getNow getsize sha1sum (m, length xs) x = Inr (m', n')"
  shows "assembled getNow getsize sha1sum (xs @ [x]) m' \<and> n' = Suc (length xs)"
proof -
  from workflow_step_Inr [OF step] obtain w obj obj' fi where
    w: "x ''workflow_uuid'' = Some w"
    and obj: "case m w of None \<Rightarrow> obj = workflowObj_of (getNow (length xs)) x []
                        | Some old \<Rightarrow> obj = old"
    and fi: "fileInfoObj_of getsize sha1sum x = Inr fi"
    and app: "append_output obj (Inr fi) = Inr obj'"
    and m': "m' = m(w \<mapsto> obj')" and n': "n' = Suc (length xs)"
    by blast
  have new: "\<exists>first rest outs.
          obj' = workflowObj_of (getNow (first_index w (xs @ [x]))) first outs
        \<and> records_of w (xs @ [x]) = first # rest
        \<and> map Inr outs = map (fileInfoObj_of getsize sha1sum) (first # rest)"
  proof (cases "m w")
    case None
    have empty: "records_of w xs = []"
    proof (cases "records_of w xs")
      case Nil
      then show ?thesis .
    next
      case (Cons first rest)
      from assembledD_Cons [OF inv Cons] None show ?thesis by auto
    qed
    from obj None have "obj = workflowObj_of (getNow (length xs)) x []" by simp
    with app have o: "obj' = workflowObj_of (getNow (length xs)) x [fi]"
      by (simp add: append_output_workflowObj)
    have i: "first_index w (xs @ [x]) = length xs"
      by (rule first_index_new) (rule empty, rule w)
    show ?thesis
    proof (intro exI conjI)
      show "obj' = workflowObj_of (getNow (first_index w (xs @ [x]))) x [fi]"
        unfolding i by (rule o)
      show "records_of w (xs @ [x]) = x # []"
        by (simp add: records_of_snoc w empty)
      show "map Inr [fi] = map (fileInfoObj_of getsize sha1sum) (x # [])"
        using fi by simp
    qed
  next
    case (Some old)
    have "records_of w xs \<noteq> []"
      using assembledD_Nil [OF inv, of w] Some by auto
    then obtain first rest where recs: "records_of w xs = first # rest"
      by (cases "records_of w xs") auto
    from assembledD_Cons [OF inv recs] Some obtain outs where
      old: "old = workflowObj_of (getNow (first_index w xs)) first outs"
      and outs: "map Inr outs = map (fileInfoObj_of getsize sha1sum) (first # rest)"
      by auto
    from obj Some old have "obj = workflowObj_of (getNow (first_index w xs)) first outs"
      by simp
    with app have o: "obj' = workflowObj_of (getNow (first_index w xs)) first (outs @ [fi])"
      by (simp add: append_output_workflowObj)
    have i: "first_index w (xs @ [x]) = first_index w xs"
      by (rule first_index_old) (simp add: recs)
    show ?thesis
    proof (intro exI conjI)
      show "obj' = workflowObj_of (getNow (first_index w (xs @ [x]))) first (outs @ [fi])"
        unfolding i by (rule o)
      show "records_of w (xs @ [x]) = first # (rest @ [x])"
        by (simp add: records_of_snoc w recs)
      show "map Inr (outs @ [fi]) =
          map (fileInfoObj_of getsize sha1sum) (first # (rest @ [x]))"
        using outs fi by simp
    qed
  qed
  then obtain first rest outs where
    obj': "obj' = workflowObj_of (getNow (first_index w (xs @ [x]))) first outs"
    and recs: "records_of w (xs @ [x]) = first # rest"
    and outs: "map Inr outs = map (fileInfoObj_of getsize sha1sum) (first # rest)"
    by blast
  have "assembled getNow getsize sha1sum (xs @ [x]) m'"
  proof (rule assembledI)
    fix w'
    assume e: "records_of w' (xs @ [x]) = []"
    then have "w' \<noteq> w" using recs by auto
    moreover from e have "records_of w' xs = []"
      by (simp add: records_of_snoc split: if_splits)
    ultimately show "m' w' = None"
      using assembledD_Nil [OF inv] by (simp add: m')
  next
    fix w' first' rest'
    assume c: "records_of w' (xs @ [x]) = first' # rest'"
    show "\<exists>outs. m' w' = Some (workflowObj_of (getNow (first_index w' (xs @ [x]))) first' outs)
                 \<and> map Inr outs = map (fileInfoObj_of getsize sha1sum) (first' # rest')"
    proof (cases "w' = w")
      case True
      with c recs have eq: "first' = first" "rest' = rest" by simp_all
      have "m' w' = Some (workflowObj_of (getNow (first_index w' (xs @ [x]))) first' outs)"
        using True obj' eq by (simp add: m')
      moreover have "map Inr outs = map (fileInfoObj_of getsize sha1sum) (first' # rest')"
        using outs eq by simp
      ultimately show ?thesis by (intro exI conjI)
    next
      case False
      with w c have old: "records_of w' xs = first' # rest'"
        by (simp add: records_of_snoc)
      have "first_index w' (xs @ [x]) = first_index w' xs"
        by (rule first_index_old) (simp add: old)
      with assembledD_Cons [OF inv old] False show ?thesis by (simp add: m')
    qed
  qed
  with n' show ?thesis by simp
qed

lemma workflow_fold_assembled:
  "foldM (workflow_step getNow getsize sha1sum) (Map.empty, 0) xs = Inr (m, n) \<Longrightarrow>
   assembled getNow getsize sha1sum xs m \<and> n = length xs"
proof (induction xs arbitrary: m n rule: rev_induct)
  case Nil
  then show ?case by (auto simp: assembled_def records_of_def)
next
  case (snoc x xs)
  from snoc.prems obtain m0 n0 where
    pre: "foldM (workflow_step getNow getsize sha1sum) (Map.empty, 0) xs = Inr (m0, n0)"
    and step: "workflow_step getNow getsize sha1sum (m0, n0) x = Inr (m, n)"
    by (auto simp: foldM_append split: sum.splits)
  from snoc.IH [OF pre] have inv: "assembled getNow getsize sha1sum xs m0"
    and n0: "n0 = length xs"
    by simp_all
  from step have "workflow_step getNow getsize sha1sum (m0, length xs) x = Inr (m, n)"
    unfolding n0 .
  from workflow_step_assembled [OF inv this] show ?case by simp
qed

text \<open>Records that can be read do not raise.\<close>

lemma readable_uuid:
  "readable getsize sha1sum x \<Longrightarrow> \<exists>w. x ''workflow_uuid'' = Some w"
  by (simp add: readable_def skeleton_keys_def)

lemma readable_new:
  "readable getsize sha1sum x \<Longrightarrow> new_workflowObj now x = Inr (workflowObj_of now x [])"
  by (simp add: readable_def new_workflowObj_def)

lemma readable_file:
  assumes "readable getsize sha1sum x"
  shows "\<exists>fi. fileInfoObj_of getsize sha1sum x = Inr fi"
proof -
  from assms obtain ft fp where "x ''file_type'' = Some ft" and fp: "x ''file_path'' = Some fp"
    by (auto simp: readable_def split: option.splits)
  moreover from assms fp obtain sz sha where "getsize fp = Some sz" and "sha1sum fp = Some sha"
    by (auto simp: readable_def)
  ultimately show ?thesis by (simp add: fileInfoObj_of_def)
qed

lemma workflow_step_total:
  assumes "readable getsize sha1sum x"
    and "\<forall>w obj. m w = Some obj \<longrightarrow> (\<exists>t f outs. obj = workflowObj_of t f outs)"
  shows "\<exists>m'. workflow_step getNow getsize sha1sum (m, n) x = Inr (m', Suc n)
            \<and> (\<forall>w obj. m' w = Some obj \<longrightarrow> (\<exists>t f outs. obj = workflowObj_of t f outs))"
proof -
  from readable_uuid [OF assms(1)] obtain w where w: "x ''workflow_uuid'' = Some w" by blast
  from readable_file [OF assms(1)] obtain fi where
    fi: "fileInfoObj_of getsize sha1sum x = Inr fi" by blast
  note new = readable_new [OF assms(1), of "getNow n"]
  show ?thesis
  proof (cases "m w")
    case None
    then have "workflow_step getNow getsize sha1sum (m, n) x =
        Inr (m(w \<mapsto> workflowObj_of (getNow n) x [fi]), Suc n)"
      by (simp add: workflow_step_def w new fi append_output_workflowObj)
    moreover have "\<exists>t f outs. obj = workflowObj_of t f outs"
      if "(m(w \<mapsto> workflowObj_of (getNow n) x [fi])) w' = Some obj" for w' obj
      using that assms(2) by (cases "w' = w") auto
    ultimately show ?thesis by blast
  next
    case (Some old)
    from assms(2) Some obtain t f outs where old: "old = workflowObj_of t f outs"
      by blast
    have "workflow_step getNow getsize sha1sum (m, n) x =
        Inr (m(w \<mapsto> workflowObj_of t f (outs @ [fi])), Suc n)"
      by (simp add: workflow_step_def w Some old fi append_output_workflowObj)
    moreover have "\<exists>t f outs. obj = workflowObj_of t f outs"
      if "(m(w \<mapsto> workflowObj_of t f (outs @ [fi]))) w' = Some obj" for w' obj
      using that assms(2) by (cases "w' = w") auto
    ultimately show ?thesis by blast
  qed
qed

lemma workflow_fold_total:
  assumes "list_all (readable getsize sha1sum) xs"
    and "\<forall>w obj. m w = Some obj \<longrightarrow> (\<exists>t f outs. obj = workflowObj_of t f outs)"
  shows "\<exists>m'. foldM (workflow_step getNow getsize sha1sum) (m, n) xs = Inr (m', n + length xs)"
  using assms
proof (induction xs arbitrary: m n)
  case Nil
  then show ?case by simp
next
  case (Cons x xs)
  from Cons.prems(1) have x: "readable getsize sha1sum x"
    and xs: "list_all (readable getsize sha1sum) xs" by simp_all
  from workflow_step_total [where getNow = getNow and n = n, OF x Cons.prems(2)] obtain m1 where
    step: "workflow_step getNow getsize sha1sum (m, n) x = Inr (m1, Suc n)"
    and inv: "\<forall>w obj. m1 w = Some obj \<longrightarrow> (\<exists>t f outs. obj = workflowObj_of t f outs)"
    by blast
  from Cons.IH [OF xs inv, of "Suc n"] step show ?case by simp
qed

text \<open>The object of a record, field by field.\<close>

lemma workflowObj_fields:
  assumes "f ''workflow_uuid'' = Some w"
  shows "workflowObj_of now f outs =
           \<lparr>program = the (f ''program''),
                      project = the (f ''project''),
                      center_name = the (f ''center_name''),
                      submitter_donor_id = the (f ''submitter_donor_id''),
                      donor_uuid = the (f ''donor_uuid''),
                      submitter_donor_primary_site =
                        (case f ''submitter_donor_primary_site'' of
                           None \<Rightarrow> [] | Some site \<Rightarrow> site),
                      timestamp = now,
                      schema_version = ''0.0.3'',
                      specimen =
                        [\<lparr>submitter_specimen_id = the (f ''submitter_specimen_id''),
                          submitter_specimen_type = the (f ''submitter_specimen_type''),
                          submitter_experimental_design =
                            the (f ''submitter_experimental_design''),
                          specimen_uuid = the (f ''specimen_uuid''),
                          samples =
                            [\<lparr>submitter_sample_id = the (f ''submitter_sample_id''),
                              sample_uuid = the (f ''sample_uuid''),
                              analysis =
                                [\<lparr>workflow_name = the (f ''workflow_name''),
                                  workflow_version = the (f ''workflow_version''),
                                  analysis_type = the (f ''analysis_type''),
                                  workflow_outputs = outs,
                                  bundle_uuid = w,
                                  a_timestamp = None\<rparr>]\<rparr>]\<rparr>]\<rparr>"
  using assms
  by (simp add: workflowObj_of_def getValueFromObject_def split: option.splits)

text \<open>
  The first record of a \<^verbatim>\<open>workflow_uuid\<close> has the keys that the skeleton is built
  from: without one of them the step raises.
\<close>

lemma workflow_step_new_keys:
  assumes "workflow_step getNow getsize sha1sum (m, n) x = Inr (m', n')"
    and "x ''workflow_uuid'' = Some w" and "m w = None"
  shows "list_all (\<lambda>k. x k \<noteq> None) skeleton_keys"
proof (rule ccontr)
  assume "\<not> list_all (\<lambda>k. x k \<noteq> None) skeleton_keys"
  then have "new_workflowObj (getNow n) x = Inl KeyError"
    by (simp only: new_workflowObj_def if_False)
  with assms show False by (simp add: workflow_step_def)
qed

lemma records_of_first:
  assumes "records_of w xs = first # rest"
  shows "first ''workflow_uuid'' = Some w"
proof -
  have "first \<in> set (records_of w xs)" by (simp add: assms)
  then show ?thesis by (simp add: records_of_def)
qed

lemma workflow_fold_keys:
  "foldM (workflow_step getNow getsize sha1sum) (Map.empty, 0) xs = Inr (m, n) \<Longrightarrow>
   records_of w xs = first # rest \<Longrightarrow> list_all (\<lambda>k. first k \<noteq> None) skeleton_keys"
proof (induction xs arbitrary: m n first rest rule: rev_induct)
  case Nil
  then show ?case by (simp add: records_of_def)
next
  case (snoc x xs)
  from snoc.prems(1) obtain m0 n0 where
    pre: "foldM (workflow_step getNow getsize sha1sum) (Map.empty, 0) xs = Inr (m0, n0)"
    and step: "workflow_step getNow getsize sha1sum (m0, n0) x = Inr (m, n)"
    by (auto simp: foldM_append split: sum.splits)
  from workflow_fold_assembled [OF pre] have inv: "assembled getNow getsize sha1sum xs m0"
    by simp
  show ?case
  proof (cases "records_of w xs")
    case Nil
    with snoc.prems(2) have x: "x ''workflow_uuid'' = Some w" and first: "first = x"
      by (simp_all add: records_of_snoc split: if_splits)
    have "m0 w = None" using assembledD_Nil [OF inv Nil] .
    from workflow_step_new_keys [OF step x this] show ?thesis by (simp add: first)
  next
    case (Cons first0 rest0)
    with snoc.prems(2) have "first = first0"
      by (simp add: records_of_snoc split: if_splits)
    with snoc.IH [OF pre Cons] show ?thesis by simp
  qed
qed

text \<open>
  Claim C7. If every record has the keys that are read and its file can be read,
  \<^verbatim>\<open>getWorkflowObjects\<close> returns a mapping. Whenever it returns one: a key that is the
  \<^verbatim>\<open>workflow_uuid\<close> of no record has no bundle; the bundle of any other key \<open>w\<close> has
  the donor, specimen, sample and analysis fields of the first record with that
  \<^verbatim>\<open>workflow_uuid\<close> (which has them all), the time at which that record is processed
  as \<^verbatim>\<open>timestamp\<close>, the schema version \<^verbatim>\<open>0.0.3\<close>, one specimen, one sample and one
  analysis entry with \<open>w\<close> as \<^verbatim>\<open>bundle_uuid\<close>, and as outputs the file descriptors of
  the records with that \<^verbatim>\<open>workflow_uuid\<close>, one for each, in input order.
\<close>

theorem assembly_grouping:
  "(list_all (readable getsize sha1sum) flatMetadataObjs \<longrightarrow>
      (\<exists>m. getWorkflowObjects getNow getsize sha1sum flatMetadataObjs = Inr m))
   \<and> (getWorkflowObjects getNow getsize sha1sum flatMetadataObjs = Inr commonObjMap \<longrightarrow>
      (case records_of w flatMetadataObjs of
         [] \<Rightarrow> commonObjMap w = None
       | first # rest \<Rightarrow>
           (\<exists>outs.
              commonObjMap w =
                Some \<lparr>program = the (first ''program''),
                      project = the (first ''project''),
                      center_name = the (first ''center_name''),
                      submitter_donor_id = the (first ''submitter_donor_id''),
                      donor_uuid = the (first ''donor_uuid''),
                      submitter_donor_primary_site =
                        (case first ''submitter_donor_primary_site'' of
                           None \<Rightarrow> [] | Some site \<Rightarrow> site),
                      timestamp = getNow (first_index w flatMetadataObjs),
                      schema_version = ''0.0.3'',
                      specimen =
                        [\<lparr>submitter_specimen_id = the (first ''submitter_specimen_id''),
                          submitter_specimen_type = the (first ''submitter_specimen_type''),
                          submitter_experimental_design =
                            the (first ''submitter_experimental_design''),
                          specimen_uuid = the (first ''specimen_uuid''),
                          samples =
                            [\<lparr>submitter_sample_id = the (first ''submitter_sample_id''),
                              sample_uuid = the (first ''sample_uuid''),
                              analysis =
                                [\<lparr>workflow_name = the (first ''workflow_name''),
                                  workflow_version = the (first ''workflow_version''),
                                  analysis_type = the (first ''analysis_type''),
                                  workflow_outputs = outs,
                                  bundle_uuid = w,
                                  a_timestamp = None\<rparr>]\<rparr>]\<rparr>]\<rparr>
              \<and> list_all (\<lambda>k. first k \<noteq> None) skeleton_keys
              \<and> map Inr outs = map (fileInfoObj_of getsize sha1sum) (first # rest)
              \<and> length outs = length (records_of w flatMetadataObjs))))"
proof (intro conjI impI)
  assume "list_all (readable getsize sha1sum) flatMetadataObjs"
  from workflow_fold_total [where m = Map.empty and getNow = getNow and n = 0, OF this]
  show "\<exists>m. getWorkflowObjects getNow getsize sha1sum flatMetadataObjs = Inr m"
    by (auto simp: getWorkflowObjects_def)
next
  assume "getWorkflowObjects getNow getsize sha1sum flatMetadataObjs = Inr commonObjMap"
  then obtain n where fold: "foldM (workflow_step getNow getsize sha1sum) (Map.empty, 0)
      flatMetadataObjs = Inr (commonObjMap, n)"
    by (auto simp: getWorkflowObjects_def split: sum.splits)
  then have inv: "assembled getNow getsize sha1sum flatMetadataObjs commonObjMap"
    using workflow_fold_assembled by blast
  show "case records_of w flatMetadataObjs of
         [] \<Rightarrow> commonObjMap w = None
       | first # rest \<Rightarrow>
           (\<exists>outs.
              commonObjMap w =
                Some \<lparr>program = the (first ''program''),
                      project = the (first ''project''),
                      center_name = the (first ''center_name''),
                      submitter_donor_id = the (first ''submitter_donor_id''),
                      donor_uuid = the (first ''donor_uuid''),
                      submitter_donor_primary_site =
                        (case first ''submitter_donor_primary_site'' of
                           None \<Rightarrow> [] | Some site \<Rightarrow> site),
                      timestamp = getNow (first_index w flatMetadataObjs),
                      schema_version = ''0.0.3'',
                      specimen =
                        [\<lparr>submitter_specimen_id = the (first ''submitter_specimen_id''),
                          submitter_specimen_type = the (first ''submitter_specimen_type''),
                          submitter_experimental_design =
                            the (first ''submitter_experimental_design''),
                          specimen_uuid = the (first ''specimen_uuid''),
                          samples =
                            [\<lparr>submitter_sample_id = the (first ''submitter_sample_id''),
                              sample_uuid = the (first ''sample_uuid''),
                              analysis =
                                [\<lparr>workflow_name = the (first ''workflow_name''),
                                  workflow_version = the (first ''workflow_version''),
                                  analysis_type = the (first ''analysis_type''),
                                  workflow_outputs = outs,
                                  bundle_uuid = w,
                                  a_timestamp = None\<rparr>]\<rparr>]\<rparr>]\<rparr>
              \<and> list_all (\<lambda>k. first k \<noteq> None) skeleton_keys
              \<and> map Inr outs = map (fileInfoObj_of getsize sha1sum) (first # rest)
              \<and> length outs = length (records_of w flatMetadataObjs))"
  proof (cases "records_of w flatMetadataObjs")
    case Nil
    with assembledD_Nil [OF inv Nil] show ?thesis by simp
  next
    case (Cons first rest)
    from assembledD_Cons [OF inv Cons] obtain outs where
      m: "commonObjMap w =
            Some (workflowObj_of (getNow (first_index w flatMetadataObjs)) first outs)"
      and outs: "map Inr outs = map (fileInfoObj_of getsize sha1sum) (first # rest)"
      by blast
    from outs have "length (map Inr outs :: (error + file_info) list) = length (first # rest)"
      by (simp del: list.map)
    then have len: "length outs = length (first # rest)" by simp
    have keys: "list_all (\<lambda>k. first k \<noteq> None) skeleton_keys"
      by (rule workflow_fold_keys [OF fold Cons])
    have uuid: "first ''workflow_uuid'' = Some w"
      by (rule records_of_first [OF Cons])
    note fields = workflowObj_fields [where f = first and w = w
        and now = "getNow (first_index w flatMetadataObjs)" and outs = outs, OF uuid]
    from m have m': "commonObjMap w =
                Some \<lparr>program = the (first ''program''),
                      project = the (first ''project''),
                      center_name = the (first ''center_name''),
                      submitter_donor_id = the (first ''submitter_donor_id''),
                      donor_uuid = the (first ''donor_uuid''),
                      submitter_donor_primary_site =
                        (case first ''submitter_donor_primary_site'' of
                           None \<Rightarrow> [] | Some site \<Rightarrow> site),
                      timestamp = getNow (first_index w flatMetadataObjs),
                      schema_version = ''0.0.3'',
                      specimen =
                        [\<lparr>submitter_specimen_id = the (first ''submitter_specimen_id''),
                          submitter_specimen_type = the (first ''submitter_specimen_type''),
                          submitter_experimental_design =
                            the (first ''submitter_experimental_design''),
                          specimen_uuid = the (first ''specimen_uuid''),
                          samples =
                            [\<lparr>submitter_sample_id = the (first ''submitter_sample_id''),
                              sample_uuid = the (first ''sample_uuid''),
                              analysis =
                                [\<lparr>workflow_name = the (first ''workflow_name''),
                                  workflow_version = the (first ''workflow_version''),
                                  analysis_type = the (first ''analysis_type''),
                                  workflow_outputs = outs,
                                  bundle_uuid = w,
                                  a_timestamp = None\<rparr>]\<rparr>]\<rparr>]\<rparr>"
      unfolding fields .
    show ?thesis
      unfolding Cons list.case using m' keys outs len by blast
  qed
qed

lemma three_rows_readable: "list_all (readable disk_size disk_sha) three_rows"
  by code_simp

lemma three_rows_w1:
  "records_of ''w1'' three_rows =
     [flat_row ''w1'' ''sa1'' ''a.bam'', flat_row ''w1'' ''sa1'' ''c.bam'']"
  by (simp add: records_of_def three_rows_def flat_row_def)

lemma three_rows_w3: "records_of ''w3'' three_rows = []"
  by (simp add: records_of_def three_rows_def flat_row_def)

lemma three_rows_index: "first_index ''w1'' three_rows = 0"
  by (simp add: first_index_def three_rows_def flat_row_def)

lemma file_a:
  "fileInfoObj_of disk_size disk_sha (flat_row ''w1'' ''sa1'' ''a.bam'') =
     Inr \<lparr>file_type = ''bam'', file_path = ''a.bam'', file_size = 10, file_sha = ''sha-a''\<rparr>"
  by (simp add: fileInfoObj_of_def flat_row_def disk_size_def disk_sha_def)

lemma file_c:
  "fileInfoObj_of disk_size disk_sha (flat_row ''w1'' ''sa1'' ''c.bam'') =
     Inr \<lparr>file_type = ''bam'', file_path = ''c.bam'', file_size = 30, file_sha = ''sha-c''\<rparr>"
  by (simp add: fileInfoObj_of_def flat_row_def disk_size_def disk_sha_def)

text \<open>
  Instance: three rows, the first and the third of workflow \<^verbatim>\<open>w1\<close>. The bundle of
  \<^verbatim>\<open>w1\<close> has the fields of the first row and the time of the first row, and has the
  files of the first and the third row, in this order; \<^verbatim>\<open>w3\<close> has no bundle.
\<close>

theorem assembly_grouping_witness:
  "\<exists>m. getWorkflowObjects clock disk_size disk_sha three_rows = Inr m
      \<and> m ''w1'' =
          Some \<lparr>program = ''TEST'', project = ''P'', center_name = ''UCSC'',
                 submitter_donor_id = ''D1'', donor_uuid = ''d1'',
                 submitter_donor_primary_site = [],
                 timestamp = ''2017-01-01T00:00:00'', schema_version = ''0.0.3'',
                 specimen =
                   [\<lparr>submitter_specimen_id = ''S1'', submitter_specimen_type = ''Normal'',
                     submitter_experimental_design = ''RNA-Seq'', specimen_uuid = ''sp1'',
                     samples =
                       [\<lparr>submitter_sample_id = ''sa1'', sample_uuid = ''sa1'',
                         analysis =
                           [\<lparr>workflow_name = ''rnaseq'', workflow_version = ''1.0.0'',
                             analysis_type = ''alignment'',
                             workflow_outputs =
                               [\<lparr>file_type = ''bam'', file_path = ''a.bam'', file_size = 10,
                                  file_sha = ''sha-a''\<rparr>,
                                \<lparr>file_type = ''bam'', file_path = ''c.bam'', file_size = 30,
                                  file_sha = ''sha-c''\<rparr>],
                             bundle_uuid = ''w1'',
                             a_timestamp = None\<rparr>]\<rparr>]\<rparr>]\<rparr>
      \<and> m ''w3'' = None"
proof -
  note inst = assembly_grouping [where getNow = clock and getsize = disk_size
      and sha1sum = disk_sha and flatMetadataObjs = three_rows]
  from inst [THEN conjunct1] three_rows_readable obtain m where
    m: "getWorkflowObjects clock disk_size disk_sha three_rows = Inr m" by blast
  have now: "clock 0 = ''2017-01-01T00:00:00''"
    by code_simp
  from inst [where commonObjMap = m and w = "''w1''", THEN conjunct2] m
  obtain outs where "m ''w1'' =
          Some \<lparr>program = ''TEST'', project = ''P'', center_name = ''UCSC'',
                 submitter_donor_id = ''D1'', donor_uuid = ''d1'',
                 submitter_donor_primary_site = [],
                 timestamp = ''2017-01-01T00:00:00'', schema_version = ''0.0.3'',
                 specimen =
                   [\<lparr>submitter_specimen_id = ''S1'', submitter_specimen_type = ''Normal'',
                     submitter_experimental_design = ''RNA-Seq'', specimen_uuid = ''sp1'',
                     samples =
                       [\<lparr>submitter_sample_id = ''sa1'', sample_uuid = ''sa1'',
                         analysis =
                           [\<lparr>workflow_name = ''rnaseq'', workflow_version = ''1.0.0'',
                             analysis_type = ''alignment'',
                             workflow_outputs = outs,
                             bundle_uuid = ''w1'',
                             a_timestamp = None\<rparr>]\<rparr>]\<rparr>]\<rparr>"
    and "map Inr outs =
      [fileInfoObj_of disk_size disk_sha (flat_row ''w1'' ''sa1'' ''a.bam''),
       fileInfoObj_of disk_size disk_sha (flat_row ''w1'' ''sa1'' ''c.bam'')]"
    unfolding three_rows_w1 three_rows_index now list.case
    by (auto simp: flat_row_def)
  then have w1: "m ''w1'' =
          Some \<lparr>program = ''TEST'', project = ''P'', center_name = ''UCSC'',
                 submitter_donor_id = ''D1'', donor_uuid = ''d1'',
                 submitter_donor_primary_site = [],
                 timestamp = ''2017-01-01T00:00:00'', schema_version = ''0.0.3'',
                 specimen =
                   [\<lparr>submitter_specimen_id = ''S1'', submitter_specimen_type = ''Normal'',
                     submitter_experimental_design = ''RNA-Seq'', specimen_uuid = ''sp1'',
                     samples =
                       [\<lparr>submitter_sample_id = ''sa1'', sample_uuid = ''sa1'',
                         analysis =
                           [\<lparr>workflow_name = ''rnaseq'', workflow_version = ''1.0.0'',
                             analysis_type = ''alignment'',
                             workflow_outputs =
                               [\<lparr>file_type = ''bam'', file_path = ''a.bam'', file_size = 10,
                                  file_sha = ''sha-a''\<rparr>,
                                \<lparr>file_type = ''bam'', file_path = ''c.bam'', file_size = 30,
                                  file_sha = ''sha-c''\<rparr>],
                             bundle_uuid = ''w1'',
                             a_timestamp = None\<rparr>]\<rparr>]\<rparr>]\<rparr>"
    unfolding file_a file_c by (auto simp: map_eq_Cons_conv)
  from inst [where commonObjMap = m and w = "''w3''", THEN conjunct2] m
  have w3: "m ''w3'' = None"
    unfolding three_rows_w3 by simp
  from m w1 w3 show ?thesis by blast
qed


end
